theory Spec2Isabelle
  imports
    Complex_Main
    "HOL-Library.Word"
    "HOL-Library.Char_ord"
    "HOL-Library.List_Lexorder"
    "HOL-Library.Product_Lexorder"
begin

unbundle bit_operations_syntax

section \<open>RGB helpers\<close>

text \<open>
  \<^verbatim>\<open>rgb888_to_rgb565(r, g, b)\<close> of both scripts: Python integers are unbounded, so the
  three channels and the result are \<^typ>\<open>int\<close>; \<^verbatim>\<open>&\<close>, \<^verbatim>\<open>|\<close>, \<^verbatim>\<open><<\<close> and
  \<^verbatim>\<open>>>\<close> are the bit operations on \<^typ>\<open>int\<close>.
\<close>

definition rgb888_to_rgb565 :: "int \<Rightarrow> int \<Rightarrow> int \<Rightarrow> int" where
  "rgb888_to_rgb565 r g b =
     (push_bit 8 (r AND 0xF8) OR push_bit 3 (g AND 0xFC)) OR drop_bit 3 b"

text \<open>
  The packing as the specification words it: red cut to its top 5 bits in bits 15..11,
  green cut to its top 6 bits in bits 10..5, blue cut to its top 5 bits in bits 4..0.
\<close>

definition spec_pack565 :: "int \<Rightarrow> int \<Rightarrow> int \<Rightarrow> int" where
  "spec_pack565 r g b =
     push_bit 11 (drop_bit 3 r) + push_bit 5 (drop_bit 2 g) + drop_bit 3 b"

text \<open>
  The decoder of the round-trip property: each field of the 16-bit value is extracted
  and re-expanded to 8 bits by shifting it back to the position it was cut from.
\<close>

definition spec_rgb565_to_rgb888 :: "int \<Rightarrow> int \<times> int \<times> int" where
  "spec_rgb565_to_rgb888 v =
     (push_bit 3 (drop_bit 11 v AND 0x1F),
      push_bit 2 (drop_bit 5 v AND 0x3F),
      push_bit 3 (v AND 0x1F))"

section \<open>Raster canvas\<close>

text \<open>
  A PIL image of mode RGB: its size and its 8-bit pixels in row-major order.
  \<^verbatim>\<open>getpixel((x, y))\<close> returns a tuple of Python integers. The loops of the scripts
  call it for \<open>x < w\<close> and \<open>y < h\<close> only, where the index is inside the pixel list of
  a well-formed image.
\<close>

type_synonym rgb8 = "8 word \<times> 8 word \<times> 8 word"
type_synonym rgb = "int \<times> int \<times> int"

record image =
  width :: nat
  height :: nat
  pixels :: "rgb8 list"

definition wf_image :: "image \<Rightarrow> bool" where
  "wf_image img \<longleftrightarrow> length (pixels img) = width img * height img"

definition rgb_of :: "rgb8 \<Rightarrow> rgb" where
  "rgb_of p = (case p of (r, g, b) \<Rightarrow> (uint r, uint g, uint b))"

definition getpixel :: "image \<Rightarrow> nat \<times> nat \<Rightarrow> rgb" where
  "getpixel img xy = (case xy of (x, y) \<Rightarrow> rgb_of (pixels img ! (y * width img + x)))"

text \<open>\<^verbatim>\<open>img.convert("RGB")\<close> on an image that is RGB already gives an equal image.\<close>

definition convert_RGB :: "image \<Rightarrow> image" where
  "convert_RGB img = img"

definition background_key :: rgb where
  "background_key = (255, 0, 255)"

definition outline_boost_threshold :: int where
  "outline_boost_threshold = 10"

definition outline_boost_rgb :: rgb where
  "outline_boost_rgb = (40, 40, 40)"

section \<open>Colour quantizer\<close>

text \<open>
  The body of the inner loop of \<^verbatim>\<open>pil_to_rgb565_array\<close>: the value appended for the
  pixel at \<open>(x, y)\<close>. The \<^verbatim>\<open>continue\<close> after appending \<^verbatim>\<open>0x0000\<close> is the first branch.
\<close>

definition quantize_step :: "rgb \<Rightarrow> int \<Rightarrow> rgb \<Rightarrow> image \<Rightarrow> nat \<Rightarrow> nat \<Rightarrow> int list \<Rightarrow> int list" where
  "quantize_step bg thr boost img y x out =
     (case getpixel img (x, y) of (r, g, b) \<Rightarrow>
        if (r, g, b) = bg then out @ [0x0000]
        else
          (case (if r \<le> thr \<and> g \<le> thr \<and> b \<le> thr then boost else (r, g, b)) of
             (r', g', b') \<Rightarrow> out @ [rgb888_to_rgb565 r' g' b']))"

definition pil_to_rgb565_array_with :: "image \<Rightarrow> rgb \<Rightarrow> int \<Rightarrow> rgb \<Rightarrow> int list" where
  "pil_to_rgb565_array_with img0 bg thr boost =
     (let img = convert_RGB img0; w = width img; h = height img
      in fold (\<lambda>y out. fold (quantize_step bg thr boost img y) [0..<w] out) [0..<h] [])"

text \<open>The call of \<^verbatim>\<open>main\<close>, with the default arguments.\<close>

definition pil_to_rgb565_array :: "image \<Rightarrow> int list" where
  "pil_to_rgb565_array img =
     pil_to_rgb565_array_with img background_key outline_boost_threshold outline_boost_rgb"

text \<open>
  The value that one pass of the inner loop appends for a pixel \<open>p\<close>; the loop is
  shown below to append exactly this value for every pixel.
\<close>

definition quantize_value :: "rgb \<Rightarrow> int \<Rightarrow> rgb \<Rightarrow> rgb \<Rightarrow> int" where
  "quantize_value bg thr boost p =
     (if p = bg then 0
      else if fst p \<le> thr \<and> fst (snd p) \<le> thr \<and> snd (snd p) \<le> thr
        then rgb888_to_rgb565 (fst boost) (fst (snd boost)) (snd (snd boost))
        else rgb888_to_rgb565 (fst p) (fst (snd p)) (snd (snd p)))"

text \<open>A small canvas used to exercise the quantizer theorems.\<close>

definition example_canvas :: image where
  "example_canvas =
     \<lparr>width = 2, height = 2,
      pixels = [(255, 0, 255), (3, 10, 0), (0, 0, 11), (200, 100, 50)]\<rparr>"

section \<open>Centering post-process\<close>

text \<open>
  \<^verbatim>\<open>Image.new("RGB", (w, h), color)\<close>: a canvas whose pixels all hold the colour, stored
  as 8-bit channels.
\<close>

definition rgb8_of :: "rgb \<Rightarrow> rgb8" where
  "rgb8_of c = (case c of (r, g, b) \<Rightarrow> (word_of_int r, word_of_int g, word_of_int b))"

definition new_image :: "nat \<Rightarrow> nat \<Rightarrow> rgb \<Rightarrow> image" where
  "new_image w h color = \<lparr>width = w, height = h, pixels = replicate (w * h) (rgb8_of color)\<rparr>"

text \<open>
  \<^verbatim>\<open>dst.paste(src, (dx, dy))\<close>: the source is copied with its upper left corner at
  \<open>(dx, dy)\<close>; the part that falls outside the destination is clipped, and the
  destination keeps its pixels where the source does not reach.
\<close>

definition paste :: "image \<Rightarrow> image \<Rightarrow> int \<times> int \<Rightarrow> image" where
  "paste dst src off =
     (case off of (dx, dy) \<Rightarrow>
        dst\<lparr>pixels :=
          concat (map (\<lambda>y. map (\<lambda>x.
            (let sx = int x - dx; sy = int y - dy
             in if 0 \<le> sx \<and> sx < int (width src) \<and> 0 \<le> sy \<and> sy < int (height src)
                then pixels src ! (nat sy * width src + nat sx)
                else pixels dst ! (y * width dst + x)))
            [0..<width dst]) [0..<height dst])\<rparr>)"

text \<open>
  Python's \<^verbatim>\<open>round\<close> with one argument: the nearest integer, a tie going to the even
  neighbour. The arguments it gets here are differences of halves of small integers,
  which floating point represents exactly, so they are modelled as rationals.
\<close>

definition py_round :: "rat \<Rightarrow> int" where
  "py_round q =
     (let f = \<lfloor>q\<rfloor>; d = q - of_int f
      in if d < 1 / 2 then f
         else if 1 / 2 < d then f + 1
         else if even f then f else f + 1)"

text \<open>
  The body of the bounding-box scan of \<^verbatim>\<open>center_by_visible_pixels\<close> for the pixel at
  \<open>(x, y)\<close>; the state is \<open>(min_x, min_y, max_x, max_y)\<close>.
\<close>

definition bbox_step :: "rgb \<Rightarrow> image \<Rightarrow> nat \<Rightarrow> nat \<Rightarrow> int \<times> int \<times> int \<times> int \<Rightarrow> int \<times> int \<times> int \<times> int" where
  "bbox_step bg img y x acc =
     (case acc of (min_x, min_y, max_x, max_y) \<Rightarrow>
        if getpixel img (x, y) = bg then acc
        else
          (let min_x = (if int x < min_x then int x else min_x);
               max_x = (if int x > max_x then int x else max_x);
               min_y = (if int y < min_y then int y else min_y);
               max_y = (if int y > max_y then int y else max_y)
           in (min_x, min_y, max_x, max_y)))"

definition scan_bbox :: "rgb \<Rightarrow> image \<Rightarrow> int \<times> int \<times> int \<times> int" where
  "scan_bbox bg img =
     fold (\<lambda>y acc. fold (bbox_step bg img y) [0..<width img] acc) [0..<height img]
       (int (width img), int (height img), - 1, - 1)"

definition center_by_visible_pixels_with :: "image \<Rightarrow> rgb \<Rightarrow> image" where
  "center_by_visible_pixels_with img0 bg =
     (let img = convert_RGB img0; w = width img; h = height img
      in case scan_bbox bg img of (min_x, min_y, max_x, max_y) \<Rightarrow>
        if max_x < min_x \<or> max_y < min_y then img
        else
          (let bbox_cx = of_int (min_x + max_x) / 2;
               bbox_cy = of_int (min_y + max_y) / 2;
               canvas_cx = of_int (int w - 1) / 2;
               canvas_cy = of_int (int h - 1) / 2;
               dx = py_round (canvas_cx - bbox_cx);
               dy = py_round (canvas_cy - bbox_cy);
               centered = new_image w h bg
           in paste centered img (dx, dy)))"

text \<open>The call of \<^verbatim>\<open>main\<close>, with the default background key.\<close>

definition center_by_visible_pixels :: "image \<Rightarrow> image" where
  "center_by_visible_pixels img = center_by_visible_pixels_with img background_key"

text \<open>A canvas with two visible pixels in its upper left corner, and an empty one.\<close>

definition offcenter_canvas :: image where
  "offcenter_canvas =
     \<lparr>width = 4, height = 3,
      pixels = [(9, 9, 9), (7, 0, 0), (255, 0, 255), (255, 0, 255),
                (255, 0, 255), (255, 0, 255), (255, 0, 255), (255, 0, 255),
                (255, 0, 255), (255, 0, 255), (255, 0, 255), (255, 0, 255)]\<rparr>"

definition blank_canvas :: image where
  "blank_canvas =
     \<lparr>width = 2, height = 2,
      pixels = [(255, 0, 255), (255, 0, 255), (255, 0, 255), (255, 0, 255)]\<rparr>"

text \<open>
  A canvas of even width and height with one visible pixel in its corner: no offset
  centers the pixel exactly, and both residual offsets are ties of one half.
\<close>

definition tie_canvas :: image where
  "tie_canvas =
     \<lparr>width = 4, height = 2,
      pixels = [(9, 9, 9), (255, 0, 255), (255, 0, 255), (255, 0, 255),
                (255, 0, 255), (255, 0, 255), (255, 0, 255), (255, 0, 255)]\<rparr>"

text \<open>
  Notions used to state what the scan computes: the visible pixels of an image, the
  columns and rows that hold one, and the scan order of the two nested loops.
\<close>

definition visible :: "rgb \<Rightarrow> image \<Rightarrow> nat \<times> nat \<Rightarrow> bool" where
  "visible bg img p \<longleftrightarrow> fst p < width img \<and> snd p < height img \<and> getpixel img p \<noteq> bg"

definition visible_cols :: "rgb \<Rightarrow> image \<Rightarrow> int set" where
  "visible_cols bg img = (\<lambda>p. int (fst p)) ` {p. visible bg img p}"

definition visible_rows :: "rgb \<Rightarrow> image \<Rightarrow> int set" where
  "visible_rows bg img = (\<lambda>p. int (snd p)) ` {p. visible bg img p}"

definition coords :: "nat \<Rightarrow> nat \<Rightarrow> (nat \<times> nat) list" where
  "coords w h = concat (map (\<lambda>y. map (\<lambda>x. (x, y)) [0..<w]) [0..<h])"

text \<open>
  The integer that \<^const>\<open>py_round\<close> gives for \<open>k / 2\<close>: \<open>k / 2\<close> itself for an even
  \<open>k\<close>, and the even one of the two neighbours of \<open>k / 2\<close> for an odd \<open>k\<close>.
\<close>

definition round_half :: "int \<Rightarrow> int" where
  "round_half k = (if k mod 4 = 3 then (k + 1) div 2 else k div 2)"

text \<open>The visible pixels among the coordinates that the scan has passed.\<close>

definition seen :: "rgb \<Rightarrow> image \<Rightarrow> (nat \<times> nat) list \<Rightarrow> (nat \<times> nat) set" where
  "seen bg img ps = {p \<in> set ps. getpixel img p \<noteq> bg}"

text \<open>
  The offset \<open>(dx, dy)\<close> that \<^verbatim>\<open>center_by_visible_pixels\<close> computes for an image, with
  the default background key; \<open>None\<close> when it returns before computing one, because
  no pixel is visible.
\<close>

definition centering_offset :: "image \<Rightarrow> (int \<times> int) option" where
  "centering_offset img =
     (case scan_bbox background_key img of (min_x, min_y, max_x, max_y) \<Rightarrow>
        if max_x < min_x \<or> max_y < min_y then None
        else Some (py_round (of_int (int (width img) - 1) / 2 - of_int (min_x + max_x) / 2),
                   py_round (of_int (int (height img) - 1) / 2 - of_int (min_y + max_y) / 2)))"

section \<open>Emoji selection\<close>

text \<open>
  Identifiers are strings of ASCII characters: the file names of the asset directory are
  hexadecimal code points joined by hyphens. Python's \<^verbatim>\<open>upper\<close>, \<^verbatim>\<open>lower\<close> and
  \<^verbatim>\<open>strip\<close> are modelled on that range only: the case functions map the 26 letters and
  keep every other character, and \<^verbatim>\<open>strip\<close> removes the white-space characters 9 to
  13 and 28 to 32 from both ends. Outside ASCII Python does more (\<^verbatim>\<open>upper\<close> maps
  accented letters, \<^verbatim>\<open>strip\<close> removes U+0085 and U+00A0), which is not modelled.
\<close>

definition upper_char :: "char \<Rightarrow> char" where
  "upper_char c =
     (case map_of (zip ''abcdefghijklmnopqrstuvwxyz'' ''ABCDEFGHIJKLMNOPQRSTUVWXYZ'') c of
        Some u \<Rightarrow> u | None \<Rightarrow> c)"

definition lower_char :: "char \<Rightarrow> char" where
  "lower_char c =
     (case map_of (zip ''ABCDEFGHIJKLMNOPQRSTUVWXYZ'' ''abcdefghijklmnopqrstuvwxyz'') c of
        Some l \<Rightarrow> l | None \<Rightarrow> c)"

definition upper :: "string \<Rightarrow> string" where
  "upper s = map upper_char s"

definition lower :: "string \<Rightarrow> string" where
  "lower s = map lower_char s"

definition is_space :: "char \<Rightarrow> bool" where
  "is_space c \<longleftrightarrow> (let n = (of_char c :: nat) in (9 \<le> n \<and> n \<le> 13) \<or> (28 \<le> n \<and> n \<le> 32))"

definition strip :: "string \<Rightarrow> string" where
  "strip s = rev (dropWhile is_space (rev (dropWhile is_space s)))"

definition FACE_SEED :: "string list" where
  "FACE_SEED =
     [''1F602'', ''1F923'', ''1F60D'', ''1F970'', ''1F60A'', ''1F60E'', ''1F609'',
      ''1F618'', ''1F61C'', ''1F62D'', ''1F914'', ''1F644'']"

definition FUN_SEED :: "string list" where
  "FUN_SEED =
     [''2764-FE0F'', ''1F49B'', ''1F49A'', ''1F499'', ''1F49C'', ''1F5A4'', ''1F496'',
      ''1F495'', ''1F49E'', ''1F494'', ''1F48B'', ''1F4A5'', ''1F4A3'', ''1F4A9'',
      ''2705'', ''274C'', ''2753'', ''2757'', ''26A0-FE0F'', ''1F6AB'', ''1F6A8'',
      ''1F4A1'', ''2728'', ''1F525'', ''1F4AF'', ''1F44D'', ''1F44E'', ''1F44F'',
      ''1F64F'', ''1F91D'', ''1F918'', ''270A'', ''1F44C'', ''1F91E'', ''26BD'', ''1F3C0'',
      ''1F3C8'', ''26BE'', ''1F3BE'', ''1F3D0'', ''1F94E'', ''1F94F'', ''1F3B2'',
      ''1F3AE'', ''1F3AF'', ''1F3C6'', ''1F947'', ''1F389'', ''1F38A'', ''1F973'',
      ''1F37E'', ''1F381'', ''1F38E'', ''1F3B6'', ''1F3A7'', ''1F355'', ''1F354'',
      ''1F35F'', ''1F357'', ''1F372'', ''1F366'', ''1F36A'', ''1F370'', ''1F36D'',
      ''1F37F'', ''1F96A'', ''1F9C0'', ''2615'', ''1F37A'', ''1F377'', ''1F378'',
      ''1F436'', ''1F431'', ''1F98A'', ''1F981'', ''1F984'', ''1F438'', ''1F41F'',
      ''1F433'', ''1F40D'', ''1F33B'', ''1F339'', ''1F340'', ''1F697'', ''1F695'',
      ''1F6F4'', ''1F6A2'', ''2708-FE0F'', ''1F680'', ''1F681'', ''1F3E0'', ''1F30D'',
      ''1F30E'', ''1F30F'', ''1F4F1'', ''1F4BB'', ''1F4FA'', ''1F4F7'', ''1F50A'',
      ''1F4A4'', ''23F0'', ''1F514'', ''1F4B0'', ''1F511'']"

text \<open>
  \<^verbatim>\<open>_list_available_emoji_codes\<close>: the argument is the list of the stems of the files
  that \<^verbatim>\<open>svg_dir.glob("*.svg")\<close> yields; the result is \<^verbatim>\<open>sorted(set(codes))\<close>.
\<close>

definition list_available_emoji_codes :: "string list \<Rightarrow> string list" where
  "list_available_emoji_codes stems = sort (remdups (map upper stems))"

text \<open>
  \<^verbatim>\<open>int(s, 16)\<close> on ASCII text: white space (the characters 9 to 13 and 32) around
  the number, a sign, the prefix
  \<^verbatim>\<open>0x\<close> or \<^verbatim>\<open>0X\<close>, and single underscores between digits (and after the prefix)
  are accepted; anything else raises \<^verbatim>\<open>ValueError\<close>, which is \<open>None\<close> here.
\<close>

definition hex_digit_val :: "char \<Rightarrow> int option" where
  "hex_digit_val c =
     map_option int (map_of (zip ''0123456789abcdef'' [0..<16] @ zip ''ABCDEF'' [10..<16]) c)"

fun hex_digits :: "bool \<Rightarrow> string \<Rightarrow> int \<Rightarrow> int option" where
  "hex_digits after_digit [] acc = (if after_digit then Some acc else None)"
| "hex_digits after_digit (c # cs) acc =
     (if c = CHR ''_'' then (if after_digit then hex_digits False cs acc else None)
      else (case hex_digit_val c of
              None \<Rightarrow> None
            | Some d \<Rightarrow> hex_digits True cs (16 * acc + d)))"

definition is_int_space :: "char \<Rightarrow> bool" where
  "is_int_space c \<longleftrightarrow> (let n = (of_char c :: nat) in (9 \<le> n \<and> n \<le> 13) \<or> n = 32)"

definition py_int16 :: "string \<Rightarrow> int option" where
  "py_int16 s =
     (let t = rev (dropWhile is_int_space (rev (dropWhile is_int_space s)));
          neg = (take 1 t = ''-'');
          u = (if take 1 t = ''-'' \<or> take 1 t = ''+'' then drop 1 t else t);
          v = (if take 2 u = ''0x'' \<or> take 2 u = ''0X''
               then (if take 1 (drop 2 u) = ''_'' then drop 3 u else drop 2 u)
               else u)
      in map_option (\<lambda>n. if neg then - n else n) (hex_digits False v 0))"

text \<open>\<^verbatim>\<open>code.split("-")[0]\<close> is the text before the first hyphen.\<close>

definition first_segment_hex :: "string \<Rightarrow> int" where
  "first_segment_hex code =
     (case py_int16 (takeWhile (\<lambda>c. c \<noteq> CHR ''-'') code) of
        Some v \<Rightarrow> v | None \<Rightarrow> 0)"

definition is_face_like :: "string \<Rightarrow> bool" where
  "is_face_like code =
     (let v = first_segment_hex code
      in (0x1F600 \<le> v \<and> v \<le> 0x1F64F) \<or> (0x1F910 \<le> v \<and> v \<le> 0x1F92F)
         \<or> (0x1F930 \<le> v \<and> v \<le> 0x1F9AF))"

definition is_reasonable_autofill :: "string \<Rightarrow> bool" where
  "is_reasonable_autofill code = (let v = first_segment_hex code in v \<ge> 0x2300)"

text \<open>
  The selection of \<^verbatim>\<open>main\<close>. The closure \<^verbatim>\<open>add\<close> updates the list \<^verbatim>\<open>selected\<close>,
  the set \<^verbatim>\<open>seen\<close> and the counter \<^verbatim>\<open>face_count\<close>, which form the state here.
\<close>

record selection =
  selected :: "string list"
  seen_codes :: "string set"
  face_count :: int

definition add :: "string set \<Rightarrow> int \<Rightarrow> string \<Rightarrow> selection \<Rightarrow> selection" where
  "add available max_faces code st =
     (let c = strip (upper code)
      in if c = [] \<or> c \<in> seen_codes st then st
         else if c \<notin> available then st
         else if is_face_like c \<and> face_count st \<ge> max_faces then st
         else \<lparr>selected = selected st @ [c],
               seen_codes = insert c (seen_codes st),
               face_count = (if is_face_like c then face_count st + 1 else face_count st)\<rparr>)"

text \<open>The loops over the two seed lists: add, then leave the loop once the target is met.\<close>

fun add_seeds :: "string set \<Rightarrow> int \<Rightarrow> int \<Rightarrow> string list \<Rightarrow> selection \<Rightarrow> selection" where
  "add_seeds available max_faces target_count [] st = st"
| "add_seeds available max_faces target_count (c # cs) st =
     (let st' = add available max_faces c st
      in if int (length (selected st')) \<ge> target_count then st'
         else add_seeds available max_faces target_count cs st')"

text \<open>\<^verbatim>\<open>sort_key\<close> of the auto-fill: fewer hyphens first, then shorter codes, then the text.\<close>

definition sort_key_fn :: "string \<Rightarrow> nat \<times> nat \<times> string" where
  "sort_key_fn c = (count_list c CHR ''-'', length c, c)"

text \<open>The auto-fill loop: leave once the target is met, skip low code points, add.\<close>

fun auto_fill :: "string set \<Rightarrow> int \<Rightarrow> int \<Rightarrow> string list \<Rightarrow> selection \<Rightarrow> selection" where
  "auto_fill available max_faces target_count [] st = st"
| "auto_fill available max_faces target_count (c # cs) st =
     (if int (length (selected st)) \<ge> target_count then st
      else if \<not> is_reasonable_autofill c
        then auto_fill available max_faces target_count cs st
        else auto_fill available max_faces target_count cs (add available max_faces c st))"

text \<open>
  Lines 532 to 581 of \<^verbatim>\<open>main\<close>: \<open>stems\<close> are the file stems of the directory, and
  \<open>count\<close> and \<open>max_faces_arg\<close> the command-line values.
\<close>

definition select_emoji_codes_main :: "string list \<Rightarrow> int \<Rightarrow> int \<Rightarrow> string list" where
  "select_emoji_codes_main stems count max_faces_arg =
     (let target_count = max 1 count;
          max_faces = max 0 max_faces_arg;
          codes = list_available_emoji_codes stems;
          available = set codes;
          st0 = \<lparr>selected = [], seen_codes = {}, face_count = 0\<rparr>;
          st1 = add_seeds available max_faces target_count FACE_SEED st0;
          st2 = (if int (length (selected st1)) < target_count
                 then add_seeds available max_faces target_count FUN_SEED st1 else st1);
          st3 = (if int (length (selected st2)) < target_count
                 then auto_fill available max_faces target_count
                        (sort_key sort_key_fn codes) st2
                 else st2)
      in take (nat target_count) (selected st3))"

text \<open>
  Notions used to state what the selection guarantees. An identifier of the pool can be
  selected when it is not empty, is left unchanged by \<^verbatim>\<open>upper\<close> and \<^verbatim>\<open>strip\<close>, and
  passes the auto-fill filter. The invariant relates the three parts of the state, and
  \<open>tried\<close> holds for an identifier once \<^const>\<open>add\<close> has accepted it or has refused it
  for the face cap.
\<close>

definition valid_code :: "string \<Rightarrow> bool" where
  "valid_code c \<longleftrightarrow> c \<noteq> [] \<and> strip (upper c) = c \<and> is_reasonable_autofill c"

definition sel_inv :: "string set \<Rightarrow> int \<Rightarrow> selection \<Rightarrow> bool" where
  "sel_inv available max_faces st \<longleftrightarrow>
     distinct (selected st) \<and> set (selected st) = seen_codes st \<and>
     seen_codes st \<subseteq> available \<and>
     face_count st = int (length (filter is_face_like (selected st))) \<and>
     face_count st \<le> max_faces"

definition tried :: "int \<Rightarrow> selection \<Rightarrow> string \<Rightarrow> bool" where
  "tried max_faces st c \<longleftrightarrow> c \<in> seen_codes st \<or> (is_face_like c \<and> face_count st \<ge> max_faces)"

text \<open>Two pools of file stems: eleven faces, and a mixed directory listing.\<close>

definition face_pool :: "string list" where
  "face_pool =
     [''1F600'', ''1F601'', ''1F602'', ''1F603'', ''1F604'', ''1F605'', ''1F606'',
      ''1F607'', ''1F608'', ''1F609'', ''1F60A'']"

definition mixed_pool :: "string list" where
  "mixed_pool =
     [''1f600'', ''1F601'', ''1F4A9'', ''002D'', ''1F468-200D-1F4BB'', ''2705'']"

section \<open>Array emitter\<close>

text \<open>
  String formatting of Python: \<^verbatim>\<open>str\<close> of a length, \<^verbatim>\<open>sep.join\<close>, and the format
  \<^verbatim>\<open>04X\<close>, which writes upper-case hexadecimal digits and pads with zeros to a width
  of four characters, a minus sign included.
\<close>

definition newline :: string where
  "newline = [CHR 0x0A]"

definition digit_char :: "nat \<Rightarrow> char" where
  "digit_char d = ''0123456789ABCDEF'' ! d"

fun str_nat :: "nat \<Rightarrow> string" where
  "str_nat n = (if n < 10 then [digit_char n] else str_nat (n div 10) @ [digit_char (n mod 10)])"

fun hex_upper :: "nat \<Rightarrow> string" where
  "hex_upper n = (if n < 16 then [digit_char n] else hex_upper (n div 16) @ [digit_char (n mod 16)])"

definition zero_pad :: "nat \<Rightarrow> string \<Rightarrow> string" where
  "zero_pad n s = replicate (n - length s) CHR ''0'' @ s"

definition format_04X :: "int \<Rightarrow> string" where
  "format_04X val =
     (if val < 0 then ''-'' @ zero_pad 3 (hex_upper (nat (- val)))
      else zero_pad 4 (hex_upper (nat val)))"

fun join :: "string \<Rightarrow> string list \<Rightarrow> string" where
  "join sep [] = []"
| "join sep [x] = x"
| "join sep (x # y # ys) = x @ sep @ join sep (y # ys)"

text \<open>\<^verbatim>\<open>range(0, n, step)\<close> for a positive step.\<close>

definition range_step :: "nat \<Rightarrow> nat \<Rightarrow> nat list" where
  "range_step n step = map (\<lambda>k. k * step) [0..<(n + step - 1) div step]"

text \<open>\<^verbatim>\<open>generate_cpp_array\<close>, the same in both scripts.\<close>

definition generate_cpp_array :: "string \<Rightarrow> int list \<Rightarrow> string" where
  "generate_cpp_array name rgb565_array =
     (let lines = [''const uint16_t '' @ name @ ''['' @ str_nat (length rgb565_array) @ ''] = {''];
          lines = fold (\<lambda>i lines.
                    (let chunk = take 16 (drop i rgb565_array);
                         hex_values = join '', '' (map (\<lambda>val. ''0x'' @ format_04X val) chunk)
                     in lines @ [''    '' @ hex_values @ '','']))
                  (range_step (length rgb565_array) 16) lines;
          lines = lines @ [''};'']
      in join newline lines)"

text \<open>
  The text that \<^verbatim>\<open>main\<close> writes to the output file, as the sequence of its
  \<^verbatim>\<open>f.write\<close> calls; the state is the text written so far.
\<close>

definition write_header :: "(string \<times> int list) list \<Rightarrow> string" where
  "write_header arrays =
     (let f = '''';
          f = f @ ''#pragma once'' @ newline;
          f = f @ ''#include <Arduino.h>'' @ newline @ newline;
          f = f @ ''// OpenMoji emoji data converted from SVG to 64x64 RGB565'' @ newline;
          f = f @ ''// Source: https://openmoji.org (CC BY-SA 4.0)'' @ newline @ newline;
          f = fold (\<lambda>(name, arr) f. (f @ generate_cpp_array name arr) @ newline @ newline)
                arrays f;
          f = f @ ''const uint16_t* emoji_arrays['' @ str_nat (length arrays) @ ''] = {'' @ newline;
          f = fold (\<lambda>(name, _) f. f @ ''    '' @ name @ '','' @ newline) arrays f;
          f = f @ ''};'' @ newline @ newline;
          f = f @ ''const int NUM_EMOJIS = '' @ str_nat (length arrays) @ '';'' @ newline
      in f)"

text \<open>
  The artifact as the specification words it: a literal is \<^verbatim>\<open>0x\<close> and four
  hexadecimal digits; a declaration lists the values of an array sixteen to a line; the
  aggregate list names every array in order; the count is the number of arrays.
\<close>

definition spec_literal :: "int \<Rightarrow> string" where
  "spec_literal v =
     (let n = nat v
      in ''0x'' @ [digit_char (n div 4096 mod 16), digit_char (n div 256 mod 16),
                   digit_char (n div 16 mod 16), digit_char (n mod 16)])"

fun rows16 :: "int list \<Rightarrow> int list list" where
  "rows16 [] = []"
| "rows16 (v # vs) = take 16 (v # vs) # rows16 (drop 16 (v # vs))"

definition spec_declaration :: "string \<Rightarrow> int list \<Rightarrow> string" where
  "spec_declaration name arr =
     ''const uint16_t '' @ name @ ''['' @ str_nat (length arr) @ ''] = {'' @ newline
     @ concat (map (\<lambda>row. ''    '' @ join '', '' (map spec_literal row) @ '','' @ newline)
         (rows16 arr))
     @ ''};''"

definition spec_aggregate :: "string list \<Rightarrow> string" where
  "spec_aggregate names =
     ''const uint16_t* emoji_arrays['' @ str_nat (length names) @ ''] = {'' @ newline
     @ concat (map (\<lambda>name. ''    '' @ name @ '','' @ newline) names)
     @ ''};'' @ newline @ newline"

definition spec_count :: "nat \<Rightarrow> string" where
  "spec_count n = ''const int NUM_EMOJIS = '' @ str_nat n @ '';'' @ newline"

definition file_prelude :: string where
  "file_prelude =
     ''#pragma once'' @ newline @ ''#include <Arduino.h>'' @ newline @ newline
     @ ''// OpenMoji emoji data converted from SVG to 64x64 RGB565'' @ newline
     @ ''// Source: https://openmoji.org (CC BY-SA 4.0)'' @ newline @ newline"

definition spec_artifact :: "(string \<times> int list) list \<Rightarrow> string" where
  "spec_artifact arrays =
     file_prelude
     @ concat (map (\<lambda>(name, arr). spec_declaration name arr @ newline @ newline) arrays)
     @ spec_aggregate (map fst arrays)
     @ spec_count (length arrays)"

text \<open>Two short arrays, of seventeen values and of one value.\<close>

definition example_arrays :: "(string \<times> int list) list" where
  "example_arrays =
     [(''emoji_a'', [0, 0xF800, 0x2945, 65535, 1, 2, 3, 4, 5, 6, 7, 8, 9, 10, 11, 12, 13]),
      (''emoji_b'', [0x07E0])]"

section \<open>The conversion run\<close>

text \<open>
  What \<^verbatim>\<open>main\<close> reads from outside the program: whether the source directory
  exists, the stems of the files that \<^verbatim>\<open>glob("*.svg")\<close> finds in it, whether the file
  \<^verbatim>\<open><code>.svg\<close> exists, and the result of parsing that file with \<^verbatim>\<open>svg2rlg\<close> and
  drawing it with \<^verbatim>\<open>render_drawing_to_pil\<close> at the given size, which is \<open>None\<close> when
  an exception is raised. The preview images are not modelled.
\<close>

record environment =
  dir_exists :: bool
  dir_stems :: "string list"
  file_exists :: "string \<Rightarrow> bool"
  render :: "string \<Rightarrow> int \<Rightarrow> image option"

text \<open>
  The body of the loop over the selected identifiers: a missing file and an exception
  both leave \<^verbatim>\<open>arrays\<close> as it is, and the loop goes on with the next identifier.
\<close>

definition convert_item :: "environment \<Rightarrow> int \<Rightarrow> string \<Rightarrow> (string \<times> int list) list \<Rightarrow> (string \<times> int list) list" where
  "convert_item env size_px emoji_code arrays =
     (if \<not> file_exists env emoji_code then arrays
      else (case render env emoji_code size_px of
              None \<Rightarrow> arrays
            | Some img0 \<Rightarrow>
                (let img = center_by_visible_pixels img0;
                     rgb565 = pil_to_rgb565_array img;
                     array_name = ''emoji_'' @ lower emoji_code
                 in arrays @ [(array_name, rgb565)])))"

definition convert_all :: "environment \<Rightarrow> int \<Rightarrow> string list \<Rightarrow> (string \<times> int list) list" where
  "convert_all env size_px emoji_codes = fold (convert_item env size_px) emoji_codes []"

text \<open>
  \<^verbatim>\<open>main\<close>: the exit status, and the text of the output file when one is written.
\<close>

definition main :: "environment \<Rightarrow> int \<Rightarrow> int \<Rightarrow> int \<Rightarrow> int \<times> string option" where
  "main env count max_faces_arg size_px =
     (if \<not> dir_exists env then (1, None)
      else
        (let emoji_codes = select_emoji_codes_main (dir_stems env) count max_faces_arg
         in if emoji_codes = [] then (1, None)
            else
              (let arrays = convert_all env size_px emoji_codes
               in (0, Some (write_header arrays)))))"

text \<open>
  A directory on a case-sensitive file system whose only file is \<^verbatim>\<open>1f4a9.svg\<close>: the
  listing yields the stem in lower case, and no file \<^verbatim>\<open>1F4A9.svg\<close> exists.
\<close>

definition lowercase_dir :: environment where
  "lowercase_dir =
     \<lparr>dir_exists = True, dir_stems = [''1f4a9''],
      file_exists = (\<lambda>code. code \<in> set [''1f4a9'']),
      render = (\<lambda>code size_px. None)\<rparr>"

section \<open>Properties of the RGB565 encoding\<close>

lemma c248: "(0xF8::int) = push_bit 3 (mask 5)"
  by (simp add: mask_eq_exp_minus_1)

lemma c252: "(0xFC::int) = push_bit 2 (mask 6)"
  by (simp add: mask_eq_exp_minus_1)

lemma c31: "(0x1F::int) = mask 5"
  by (simp add: mask_eq_exp_minus_1)

lemma c63: "(0x3F::int) = mask 6"
  by (simp add: mask_eq_exp_minus_1)

lemma and_F8_take: "take_bit 8 (r::int) AND 0xF8 = push_bit 3 (drop_bit 3 (take_bit 8 r))"
  unfolding c248 by (rule bit_eqI) (auto simp add: bit_simps)

lemma Suc_Suc_diff_2: "2 \<le> n \<Longrightarrow> Suc (Suc (n - 2)) = n"
  by simp

lemma and_FC_take: "take_bit 8 (g::int) AND 0xFC = push_bit 2 (drop_bit 2 (take_bit 8 g))"
  unfolding c252 by (rule bit_eqI) (auto simp add: bit_simps Suc_Suc_diff_2)

lemma channel_take_bit: "0 \<le> r \<Longrightarrow> r \<le> 255 \<Longrightarrow> take_bit 8 (r::int) = r"
  by (simp add: take_bit_int_eq_self)

lemma and_F8: "0 \<le> r \<Longrightarrow> r \<le> 255 \<Longrightarrow> (r::int) AND 0xF8 = 8 * (r div 8)"
  using and_F8_take [of r] by (simp add: channel_take_bit push_bit_eq_mult drop_bit_eq_div)

lemma and_FC: "0 \<le> g \<Longrightarrow> g \<le> 255 \<Longrightarrow> (g::int) AND 0xFC = 4 * (g div 4)"
  using and_FC_take [of g] by (simp add: channel_take_bit push_bit_eq_mult drop_bit_eq_div)

text \<open>The three fields do not overlap, so joining them with \<open>OR\<close> adds them.\<close>

lemma fields_disjoint:
  "push_bit 11 (drop_bit 3 (take_bit 8 r)) OR push_bit 5 (drop_bit 2 (take_bit 8 g))
     OR drop_bit 3 (take_bit 8 (b::int))
   = push_bit 11 (drop_bit 3 (take_bit 8 r)) + push_bit 5 (drop_bit 2 (take_bit 8 g))
     + drop_bit 3 (take_bit 8 (b::int))"
proof -
  let ?R = "push_bit 11 (drop_bit 3 (take_bit 8 r))"
  let ?G = "push_bit 5 (drop_bit 2 (take_bit 8 g))"
  let ?B = "drop_bit 3 (take_bit 8 b)"
  have rg: "?R + ?G = ?R OR ?G"
    by (rule disjunctive_add) (auto simp add: bit_simps)
  have rgb: "(?R OR ?G) + ?B = (?R OR ?G) OR ?B"
    by (rule disjunctive_add) (auto simp add: bit_simps)
  show ?thesis using rg rgb by (simp add: or.assoc)
qed

lemma rgb565_arith:
  assumes "0 \<le> r" "r \<le> 255" "0 \<le> g" "g \<le> 255" "0 \<le> b" "b \<le> 255"
  shows "rgb888_to_rgb565 r g b = 2048 * (r div 8) + 32 * (g div 4) + b div 8"
proof -
  have "rgb888_to_rgb565 (take_bit 8 r) (take_bit 8 g) (take_bit 8 b)
      = push_bit 11 (drop_bit 3 (take_bit 8 r)) OR push_bit 5 (drop_bit 2 (take_bit 8 g))
        OR drop_bit 3 (take_bit 8 b)"
    unfolding rgb888_to_rgb565_def and_F8_take and_FC_take
    by (simp add: push_bit_push_bit or.assoc)
  also have "\<dots> = push_bit 11 (drop_bit 3 (take_bit 8 r))
      + push_bit 5 (drop_bit 2 (take_bit 8 g)) + drop_bit 3 (take_bit 8 b)"
    by (rule fields_disjoint)
  finally show ?thesis
    using assms by (simp add: channel_take_bit push_bit_eq_mult drop_bit_eq_div)
qed

lemma decode_arith:
  fixes x y z :: int
  assumes "0 \<le> x" "x < 32" "0 \<le> y" "y < 64" "0 \<le> z" "z < 32"
  shows "((2048 * x + 32 * y + z) div 2048) mod 32 = x"
    and "((2048 * x + 32 * y + z) div 32) mod 64 = y"
    and "(2048 * x + 32 * y + z) mod 32 = z"
proof -
  have low: "0 \<le> 32 * y + z" "32 * y + z < 2048" using assms by linarith+
  have "(2048 * x + (32 * y + z)) div 2048 = x"
    using low by (simp add: div_pos_pos_trivial)
  then show "((2048 * x + 32 * y + z) div 2048) mod 32 = x"
    using assms by (simp add: add.assoc)
  have "(2048 * x + 32 * y + z) div 32 = 64 * x + y"
    using assms by (simp add: div_pos_pos_trivial)
  then show "((2048 * x + 32 * y + z) div 32) mod 64 = y"
    using assms by simp
  have "2048 * x + 32 * y + z = z + 32 * (64 * x + y)"
    by simp
  then have "(2048 * x + 32 * y + z) mod 32 = z mod 32"
    by (simp only: mod_mult_self2)
  then show "(2048 * x + 32 * y + z) mod 32 = z"
    using assms by (simp add: mod_pos_pos_trivial)
qed

lemma field_bounds:
  fixes r :: int
  assumes "0 \<le> r" "r \<le> 255"
  shows "0 \<le> r div 8" "r div 8 < 32" "0 \<le> r div 4" "r div 4 < 64"
  using assms by (simp_all add: pos_imp_zdiv_nonneg_iff)

lemma decode_fields:
  fixes x y z :: int
  assumes "0 \<le> x" "x < 32" "0 \<le> y" "y < 64" "0 \<le> z" "z < 32"
  shows "spec_rgb565_to_rgb888 (2048 * x + 32 * y + z) = (8 * x, 4 * y, 8 * z)"
proof -
  let ?v = "2048 * x + 32 * y + z"
  have a: "drop_bit 11 ?v AND 0x1F = x"
    unfolding c31 take_bit_eq_mask [symmetric] take_bit_eq_mod drop_bit_eq_div
    using decode_arith(1) [OF assms] by simp
  have b: "drop_bit 5 ?v AND 0x3F = y"
    unfolding c63 take_bit_eq_mask [symmetric] take_bit_eq_mod drop_bit_eq_div
    using decode_arith(2) [OF assms] by simp
  have c: "?v AND 0x1F = z"
    unfolding c31 take_bit_eq_mask [symmetric] take_bit_eq_mod
    using decode_arith(3) [OF assms] by simp
  show ?thesis
    unfolding spec_rgb565_to_rgb888_def a b c by (simp add: push_bit_eq_mult)
qed

text \<open>
  Claim C2. For channels in 0..255 the encoder packs the top 5 bits of red into bits
  15..11, the top 6 bits of green into bits 10..5 and the top 5 bits of blue into bits
  4..0, and decoding the result field by field gives back each channel with only its
  truncated low bits cleared: \<open>(r AND 0xF8, g AND 0xFC, b AND 0xF8)\<close>.
\<close>

theorem rgb565_pack_roundtrip:
  assumes "0 \<le> r" "r \<le> 255" "0 \<le> g" "g \<le> 255" "0 \<le> b" "b \<le> 255"
  shows "rgb888_to_rgb565 r g b = spec_pack565 r g b \<and>
         spec_rgb565_to_rgb888 (rgb888_to_rgb565 r g b) = (r AND 0xF8, g AND 0xFC, b AND 0xF8)"
proof -
  have enc: "rgb888_to_rgb565 r g b = 2048 * (r div 8) + 32 * (g div 4) + b div 8"
    using assms by (rule rgb565_arith)
  have pack: "spec_pack565 r g b = 2048 * (r div 8) + 32 * (g div 4) + b div 8"
    by (simp add: spec_pack565_def push_bit_eq_mult drop_bit_eq_div)
  have dec: "spec_rgb565_to_rgb888 (2048 * (r div 8) + 32 * (g div 4) + b div 8)
      = (8 * (r div 8), 4 * (g div 4), 8 * (b div 8))"
    using assms by (intro decode_fields field_bounds)
  have masks: "r AND 0xF8 = 8 * (r div 8)" "g AND 0xFC = 4 * (g div 4)"
    "b AND 0xF8 = 8 * (b div 8)"
    using assms by (simp_all only: and_F8 and_FC)
  show ?thesis
    unfolding enc pack dec masks by simp
qed

theorem rgb565_pack_roundtrip_witness:
  "(0::int) \<le> 201 \<and> (201::int) \<le> 255 \<and> (0::int) \<le> 77 \<and> (77::int) \<le> 255
   \<and> (0::int) \<le> 14 \<and> (14::int) \<le> 255
   \<and> rgb888_to_rgb565 201 77 14 = spec_pack565 201 77 14
   \<and> spec_rgb565_to_rgb888 (rgb888_to_rgb565 201 77 14) = (200, 76, 8)"
proof -
  have both: "rgb888_to_rgb565 201 77 14 = spec_pack565 201 77 14 \<and>
        spec_rgb565_to_rgb888 (rgb888_to_rgb565 201 77 14)
          = (201 AND 0xF8, 77 AND 0xFC, 14 AND 0xF8)"
    by (rule rgb565_pack_roundtrip) simp_all
  have masked: "((201::int) AND 0xF8, (77::int) AND 0xFC, (14::int) AND 0xF8) = (200, 76, 8)"
    by simp
  have pack: "rgb888_to_rgb565 201 77 14 = spec_pack565 201 77 14"
    using both by (rule conjunct1)
  have unpack: "spec_rgb565_to_rgb888 (rgb888_to_rgb565 201 77 14) = (200, 76, 8)"
    using both [THEN conjunct2] masked by (rule trans)
  have range: "(0::int) \<le> 201 \<and> (201::int) \<le> 255 \<and> (0::int) \<le> 77 \<and> (77::int) \<le> 255
      \<and> (0::int) \<le> 14 \<and> (14::int) \<le> 255"
    by simp
  show ?thesis using range pack unpack by blast
qed

section \<open>Properties of the colour quantizer\<close>

lemma quantize_step_append:
  "quantize_step bg thr boost img y x out =
     out @ [quantize_value bg thr boost (getpixel img (x, y))]"
  by (cases "getpixel img (x, y)"; cases boost) (simp add: quantize_step_def quantize_value_def)

lemma fold_quantize_step:
  "fold (quantize_step bg thr boost img y) xs acc =
     acc @ map (\<lambda>x. quantize_value bg thr boost (getpixel img (x, y))) xs"
  by (induction xs arbitrary: acc) (simp_all add: quantize_step_append)

lemma fold_rows_concat: "fold (\<lambda>y out. out @ g y) ys acc = acc @ concat (map g ys)"
  by (induction ys arbitrary: acc) simp_all

lemma grid_length: "length (concat (map (\<lambda>y. map (f y) [0..<w]) [0..<h])) = w * h"
  by (induction h) simp_all

lemma row_major_less: "x < w \<Longrightarrow> y < h \<Longrightarrow> y * w + x < w * (h::nat)"
proof -
  assume "x < w" "y < h"
  then have "y * w + x < y * w + w" and "y * w + w \<le> h * w"
    using mult_le_mono1 [of "Suc y" h w] by simp_all
  then show ?thesis by (simp add: mult.commute)
qed

lemma grid_nth:
  "x < w \<Longrightarrow> y < h \<Longrightarrow> concat (map (\<lambda>y. map (f y) [0..<w]) [0..<h]) ! (y * w + x) = f y x"
proof (induction h)
  case 0
  then show ?case by simp
next
  case (Suc h)
  show ?case
  proof (cases "y < h")
    case True
    then have "y * w + x < w * h"
      using Suc.prems(1) by (rule row_major_less [rotated])
    then show ?thesis using Suc True by (simp add: nth_append grid_length)
  next
    case False
    then have "y = h" using Suc.prems by simp
    then show ?thesis using Suc.prems by (simp add: nth_append grid_length mult.commute)
  qed
qed

lemma pil_to_rgb565_array_with_grid:
  "pil_to_rgb565_array_with img bg thr boost =
     concat (map (\<lambda>y. map (\<lambda>x. quantize_value bg thr boost (getpixel img (x, y)))
       [0..<width img]) [0..<height img])"
  by (simp add: pil_to_rgb565_array_with_def convert_RGB_def Let_def fold_quantize_step
      fold_rows_concat)

lemma pil_length: "length (pil_to_rgb565_array img) = width img * height img"
  unfolding pil_to_rgb565_array_def pil_to_rgb565_array_with_grid by (rule grid_length)

lemma pil_nth:
  "x < width img \<Longrightarrow> y < height img \<Longrightarrow>
   pil_to_rgb565_array img ! (y * width img + x) =
     quantize_value background_key outline_boost_threshold outline_boost_rgb
       (getpixel img (x, y))"
  unfolding pil_to_rgb565_array_def pil_to_rgb565_array_with_grid
  by (rule grid_nth)

lemma getpixel_range:
  "getpixel img (x, y) = (r, g, b) \<Longrightarrow>
     0 \<le> r \<and> r \<le> 255 \<and> 0 \<le> g \<and> g \<le> 255 \<and> 0 \<le> b \<and> b \<le> 255"
proof -
  assume a: "getpixel img (x, y) = (r, g, b)"
  obtain r' g' b' where p: "pixels img ! (y * width img + x) = (r', g', b')"
    by (cases "pixels img ! (y * width img + x)") auto
  have "uint r' < 256" "uint g' < 256" "uint b' < 256"
    using uint_lt2p [of r'] uint_lt2p [of g'] uint_lt2p [of b'] by simp_all
  then show ?thesis using a p by (auto simp add: getpixel_def rgb_of_def)
qed

lemma boost_encoding: "rgb888_to_rgb565 40 40 40 = 0x2945"
  by (simp add: rgb565_arith)

lemma div8_pos: "10 < r \<Longrightarrow> 0 < (r::int) div 8"
  by simp

lemma div4_pos: "10 < g \<Longrightarrow> 0 < (g::int) div 4"
  by simp

lemma fields_nonzero:
  fixes r g b :: int
  assumes "0 \<le> r" "0 \<le> g" "0 \<le> b" and hi: "\<not> (r \<le> 10 \<and> g \<le> 10 \<and> b \<le> 10)"
  shows "2048 * (r div 8) + 32 * (g div 4) + b div 8 \<noteq> 0"
proof -
  have nn: "0 \<le> r div 8" "0 \<le> g div 4" "0 \<le> b div 8"
    using assms(1-3) by (simp_all add: pos_imp_zdiv_nonneg_iff)
  from hi consider "10 < r" | "10 < g" | "10 < b" by linarith
  then have "0 < r div 8 \<or> 0 < g div 4 \<or> 0 < b div 8"
    using div8_pos [of r] div4_pos [of g] div8_pos [of b] by cases blast+
  then show ?thesis using nn by linarith
qed

text \<open>
  Claim C1. In a well-formed RGB image, a pixel at \<open>(x, y)\<close> that equals the sentinel
  background colour (255, 0, 255) is emitted as 0x0000 at the row-major position
  \<open>y * width + x\<close> of the output list, which has one entry per pixel.
\<close>

theorem sentinel_pixel_emits_zero:
  assumes "wf_image img" "x < width img" "y < height img"
    and "getpixel img (x, y) = background_key"
  shows "length (pil_to_rgb565_array img) = width img * height img \<and>
         pil_to_rgb565_array img ! (y * width img + x) = 0x0000"
  using assms by (simp add: pil_length pil_nth quantize_value_def)

theorem sentinel_pixel_emits_zero_witness:
  "wf_image example_canvas \<and> 0 < width example_canvas \<and> 0 < height example_canvas
   \<and> getpixel example_canvas (0, 0) = background_key
   \<and> length (pil_to_rgb565_array example_canvas) = 4
   \<and> pil_to_rgb565_array example_canvas ! 0 = 0"
  using sentinel_pixel_emits_zero [of example_canvas 0 0]
  by (simp add: example_canvas_def wf_image_def getpixel_def rgb_of_def background_key_def)

text \<open>
  Claim C3. A pixel that is not the sentinel and whose three channels are all at most the
  darkness threshold 10 is emitted as the encoding of the substitute dark gray
  (40, 40, 40); a pixel that is not the sentinel and has a channel above the threshold is
  emitted as the encoding of its own colour.
\<close>

theorem dark_pixel_boosted:
  assumes "wf_image img" "x < width img" "y < height img"
    and "getpixel img (x, y) = (r, g, b)" "(r, g, b) \<noteq> background_key"
  shows "pil_to_rgb565_array img ! (y * width img + x) =
           (if r \<le> 10 \<and> g \<le> 10 \<and> b \<le> 10 then rgb888_to_rgb565 40 40 40
            else rgb888_to_rgb565 r g b)"
  using assms
  by (simp add: pil_nth quantize_value_def outline_boost_threshold_def outline_boost_rgb_def)

theorem dark_pixel_boosted_witness:
  "wf_image example_canvas \<and> 1 < width example_canvas \<and> 0 < height example_canvas
   \<and> getpixel example_canvas (1, 0) = (3, 10, 0) \<and> (3, 10, 0) \<noteq> background_key
   \<and> pil_to_rgb565_array example_canvas ! 1 = rgb888_to_rgb565 40 40 40"
  using dark_pixel_boosted [of example_canvas 1 0 3 10 0]
  by (simp add: example_canvas_def wf_image_def getpixel_def rgb_of_def background_key_def)

text \<open>
  Claim C10. The value 0x0000 stands at a position of the output exactly when the pixel
  there is the sentinel: a dark pixel becomes the nonzero encoding of (40, 40, 40), and a
  pixel with a channel of 11 or more keeps a nonzero bit in that channel's field.
\<close>

theorem zero_reserved_for_sentinel:
  assumes "wf_image img" "x < width img" "y < height img"
  shows "pil_to_rgb565_array img ! (y * width img + x) = 0x0000 \<longleftrightarrow>
         getpixel img (x, y) = background_key"
proof (cases "getpixel img (x, y) = background_key")
  case True
  then show ?thesis using assms by (simp add: pil_nth quantize_value_def)
next
  case False
  obtain r g b where p: "getpixel img (x, y) = (r, g, b)"
    by (cases "getpixel img (x, y)") auto
  note rng = getpixel_range [OF p]
  have "quantize_value background_key outline_boost_threshold outline_boost_rgb (r, g, b) \<noteq> 0"
  proof (cases "r \<le> 10 \<and> g \<le> 10 \<and> b \<le> 10")
    case True
    then show ?thesis
      using False p
      by (simp add: quantize_value_def outline_boost_threshold_def outline_boost_rgb_def
          boost_encoding)
  next
    case hi: False
    have "quantize_value background_key outline_boost_threshold outline_boost_rgb
        (r, g, b) = rgb888_to_rgb565 r g b"
      using False p hi by (auto simp add: quantize_value_def outline_boost_threshold_def)
    then show ?thesis
      using rng hi by (simp add: rgb565_arith fields_nonzero)
  qed
  then show ?thesis using False assms p by (simp add: pil_nth)
qed

theorem zero_reserved_for_sentinel_witness:
  "wf_image example_canvas \<and> 0 < width example_canvas \<and> 1 < height example_canvas
   \<and> pil_to_rgb565_array example_canvas ! 2 \<noteq> 0
   \<and> getpixel example_canvas (0, 1) \<noteq> background_key"
  using zero_reserved_for_sentinel [of example_canvas 0 1]
  by (simp add: example_canvas_def wf_image_def getpixel_def rgb_of_def background_key_def)

section \<open>Properties of the centering post-process\<close>

subsection \<open>Rounding of the offset\<close>

lemma py_round_int: "py_round (of_int m) = m"
  by (simp add: py_round_def)

lemma py_round_int_half:
  "py_round (of_int m + 1 / 2) = (if even m then m else m + 1)"
proof -
  have "\<lfloor>(of_int m :: rat) + 1 / 2\<rfloor> = m"
    by (simp add: floor_unique)
  then show ?thesis by (simp add: py_round_def)
qed

lemma py_round_half: "py_round (of_int k / 2) = round_half k"
proof (cases "even k")
  case True
  then obtain m where k: "k = 2 * m" by (elim evenE)
  have l: "py_round (of_int k / 2) = m"
    using py_round_int [of m] by (simp add: k)
  have "(2 * m) mod 4 \<noteq> 3" by presburger
  then have r: "round_half k = m" by (simp add: round_half_def k)
  show ?thesis unfolding l r ..
next
  case False
  then obtain m where k: "k = 2 * m + 1" by (elim oddE)
  have q: "(of_int k :: rat) / 2 = of_int m + 1 / 2"
    by (simp add: k add_divide_distrib)
  have l: "py_round (of_int k / 2) = (if even m then m else m + 1)"
    unfolding q by (rule py_round_int_half)
  have "(2 * m + 1) mod 4 = 3 \<longleftrightarrow> odd m" by presburger
  moreover have "(2 * m + 1 + 1) div 2 = m + 1" "(2 * m + 1) div 2 = m" by simp_all
  ultimately have r: "round_half k = (if even m then m else m + 1)"
    by (simp add: round_half_def k)
  show ?thesis unfolding l r ..
qed

lemma center_offset:
  "of_int (w - 1) / 2 - of_int (a + c) / (2::rat) = of_int (w - 1 - (a + c)) / 2"
  by (simp add: diff_divide_distrib)

lemma round_half_lower: "k - 1 \<le> 2 * round_half k"
  unfolding round_half_def by presburger

lemma round_half_upper: "2 * round_half k \<le> k + 1"
  unfolding round_half_def by presburger

lemma round_half_small: "- 1 \<le> j \<Longrightarrow> j \<le> 1 \<Longrightarrow> round_half j = 0"
  unfolding round_half_def by presburger

lemma round_half_residual: "round_half (k - 2 * round_half k) = 0"
  using round_half_lower [of k] round_half_upper [of k] by (intro round_half_small) linarith+

lemma round_half_bounds:
  assumes "0 \<le> a" "a \<le> c" "c \<le> w - 1"
  shows "0 \<le> a + round_half (w - 1 - (a + c))" "c + round_half (w - 1 - (a + c)) \<le> w - 1"
  using assms round_half_lower [of "w - 1 - (a + c)"] round_half_upper [of "w - 1 - (a + c)"]
  by linarith+

subsection \<open>The bounding-box scan\<close>

lemma Min_insert_min:
  "finite S \<Longrightarrow> Min (insert (min a b) S) = Min (insert (a::int) (insert b S))"
  by (cases "S = {}") (simp_all add: min.assoc)

lemma Max_insert_max:
  "finite S \<Longrightarrow> Max (insert (max a b) S) = Max (insert (a::int) (insert b S))"
  by (cases "S = {}") (simp_all add: max.assoc)

lemma finite_seen: "finite (seen bg img ps)"
  by (simp add: seen_def)

lemma seen_Cons:
  "seen bg img (p # ps) = (if getpixel img p \<noteq> bg then insert p (seen bg img ps) else seen bg img ps)"
  by (auto simp add: seen_def)

lemma bbox_step_eq:
  "bbox_step bg img y x (a, b, c, d) =
     (if getpixel img (x, y) = bg then (a, b, c, d)
      else (min a (int x), min b (int y), max c (int x), max d (int y)))"
  by (auto simp add: bbox_step_def Let_def min_def max_def)

lemma fold_bbox_step:
  "fold (\<lambda>p. bbox_step bg img (snd p) (fst p)) ps (a, b, c, d) =
     (Min (insert a ((\<lambda>p. int (fst p)) ` seen bg img ps)),
      Min (insert b ((\<lambda>p. int (snd p)) ` seen bg img ps)),
      Max (insert c ((\<lambda>p. int (fst p)) ` seen bg img ps)),
      Max (insert d ((\<lambda>p. int (snd p)) ` seen bg img ps)))"
proof (induction ps arbitrary: a b c d)
  case Nil
  then show ?case by (simp add: seen_def)
next
  case (Cons p ps)
  obtain x y where p: "p = (x, y)" by (cases p)
  show ?case
  proof (cases "getpixel img p = bg")
    case True
    then show ?thesis using Cons.IH [of a b c d] by (simp add: p bbox_step_eq seen_Cons)
  next
    case False
    then show ?thesis
      using Cons.IH [of "min a (int x)" "min b (int y)" "max c (int x)" "max d (int y)"]
      by (simp add: p bbox_step_eq seen_Cons Min_insert_min Max_insert_max finite_seen
          insert_commute)
  qed
qed

lemma fold_rows_coords:
  "fold (\<lambda>y acc. fold (f y) xs acc) ys acc =
     fold (\<lambda>p. f (snd p) (fst p)) (concat (map (\<lambda>y. map (\<lambda>x. (x, y)) xs) ys)) acc"
proof (induction ys arbitrary: acc)
  case Nil
  then show ?case by simp
next
  case (Cons y ys)
  have "fold (\<lambda>p. f (snd p) (fst p)) (map (\<lambda>x. (x, y)) xs) acc = fold (f y) xs acc"
    by (simp add: fold_map comp_def)
  then show ?case using Cons by simp
qed

lemma set_coords: "set (coords w h) = {p. fst p < w \<and> snd p < h}"
  by (auto simp add: coords_def)

lemma seen_coords: "seen bg img (coords (width img) (height img)) = {p. visible bg img p}"
  by (auto simp add: seen_def set_coords visible_def)

lemma scan_bbox_eq:
  "scan_bbox bg img =
     (Min (insert (int (width img)) (visible_cols bg img)),
      Min (insert (int (height img)) (visible_rows bg img)),
      Max (insert (- 1) (visible_cols bg img)),
      Max (insert (- 1) (visible_rows bg img)))"
  unfolding scan_bbox_def fold_rows_coords coords_def [symmetric] fold_bbox_step seen_coords
    visible_cols_def visible_rows_def ..

subsection \<open>Pasting onto a fresh canvas\<close>

lemma rgb_of_background: "rgb_of (rgb8_of background_key) = background_key"
  by (simp add: rgb_of_def rgb8_of_def background_key_def)

lemma paste_size:
  "width (paste dst src off) = width dst" "height (paste dst src off) = height dst"
  by (cases off; simp add: paste_def)+

lemma wf_paste: "wf_image (paste dst src off)"
  by (cases off) (simp add: wf_image_def paste_def grid_length)

lemma getpixel_paste_new:
  assumes "x < w" "y < h"
  shows "getpixel (paste (new_image w h background_key) src (dx, dy)) (x, y) =
     (if 0 \<le> int x - dx \<and> int x - dx < int (width src) \<and> 0 \<le> int y - dy \<and> int y - dy < int (height src)
      then getpixel src (nat (int x - dx), nat (int y - dy))
      else background_key)"
  using assms row_major_less [OF assms]
  by (simp add: getpixel_def paste_def new_image_def grid_nth Let_def rgb_of_background)

lemma new_image_size:
  "width (new_image w h c) = w" "height (new_image w h c) = h"
  by (simp_all add: new_image_def)

lemma visible_paste_new:
  "visible background_key
      (paste (new_image (width src) (height src) background_key) src (dx, dy)) (x, y) \<longleftrightarrow>
     x < width src \<and> y < height src \<and> 0 \<le> int x - dx \<and> 0 \<le> int y - dy \<and>
     visible background_key src (nat (int x - dx), nat (int y - dy))"
proof (cases "x < width src \<and> y < height src")
  case True
  then show ?thesis
    by (auto simp add: visible_def paste_size new_image_size getpixel_paste_new)
next
  case False
  then show ?thesis
    by (auto simp add: visible_def paste_size new_image_size)
qed

lemma grid_nth_divmod:
  assumes "i < w * h"
  shows "concat (map (\<lambda>y. map (f y) [0..<w]) [0..<h]) ! i = f (i div w) (i mod w)"
proof -
  from assms have "0 < w" by (cases w) simp_all
  then have x: "i mod w < w" by simp
  have y: "i div w < h" using assms by (simp add: less_mult_imp_div_less mult.commute)
  show ?thesis using grid_nth [OF x y, of f] by simp
qed

lemma paste_origin:
  assumes "wf_image src"
  shows "paste (new_image (width src) (height src) bg) src (0, 0) = src"
proof -
  let ?w = "width src" and ?h = "height src"
  let ?p = "paste (new_image ?w ?h bg) src (0, 0)"
  have len: "length (pixels src) = ?w * ?h"
    using assms by (simp add: wf_image_def)
  have "pixels ?p = pixels src"
  proof (rule nth_equalityI)
    show "length (pixels ?p) = length (pixels src)"
      by (simp add: paste_def new_image_def grid_length len)
  next
    fix i
    assume "i < length (pixels ?p)"
    then have i: "i < ?w * ?h" by (simp add: paste_def new_image_def grid_length)
    then have "0 < ?w" by (cases ?w) simp_all
    then have x: "i mod ?w < ?w" by simp
    have y: "i div ?w < ?h" using i by (simp add: less_mult_imp_div_less mult.commute)
    show "pixels ?p ! i = pixels src ! i"
      using x y by (simp add: paste_def new_image_def grid_nth_divmod [OF i])
  qed
  then show ?thesis
    by (simp add: paste_def new_image_def)
qed

subsection \<open>The bounding box along one axis\<close>

lemma finite_visible: "finite {p. visible bg img p}"
proof (rule finite_subset)
  show "{p. visible bg img p} \<subseteq> {..<width img} \<times> {..<height img}"
    by (auto simp add: visible_def)
qed simp

lemma finite_visible_cols: "finite (visible_cols bg img)"
  by (simp add: visible_cols_def finite_visible)

lemma finite_visible_rows: "finite (visible_rows bg img)"
  by (simp add: visible_rows_def finite_visible)

lemma visible_cols_range: "x \<in> visible_cols bg img \<Longrightarrow> 0 \<le> x \<and> x < int (width img)"
  by (auto simp add: visible_cols_def visible_def)

lemma visible_rows_range: "y \<in> visible_rows bg img \<Longrightarrow> 0 \<le> y \<and> y < int (height img)"
  by (auto simp add: visible_rows_def visible_def)

lemma axis_facts:
  fixes X :: "int set"
  assumes "finite X" "X \<noteq> {}" "\<And>x. x \<in> X \<Longrightarrow> 0 \<le> x \<and> x < n"
  shows "Min (insert n X) = Min X" "Max (insert (- 1) X) = Max X"
    "0 \<le> Min X" "Min X \<le> Max X" "Max X \<le> n - 1"
proof -
  have mn: "Min X \<in> X" and mx: "Max X \<in> X"
    using assms by simp_all
  have "Min (insert n X) = min n (Min X)" "Max (insert (- 1) X) = max (- 1) (Max X)"
    using assms(1,2) by simp_all
  moreover have "Min X < n" "0 \<le> Max X"
    using assms(3) [OF mn] assms(3) [OF mx] by simp_all
  ultimately show "Min (insert n X) = Min X" "Max (insert (- 1) X) = Max X"
    by simp_all
  show "0 \<le> Min X" using assms(3) [OF mn] by simp
  show "Min X \<le> Max X" using assms by simp
  show "Max X \<le> n - 1" using assms(3) [OF mx] by simp
qed

lemma axis_shift:
  fixes X :: "int set"
  assumes "finite X" "X \<noteq> {}" "\<And>x. x \<in> X \<Longrightarrow> 0 \<le> x \<and> x < n"
  defines "t \<equiv> round_half (n - 1 - (Min X + Max X))"
  shows "\<And>x. x \<in> X \<Longrightarrow> 0 \<le> x + t \<and> x + t < n"
    and "Min (insert n ((\<lambda>x. x + t) ` X)) = Min X + t"
    and "Max (insert (- 1) ((\<lambda>x. x + t) ` X)) = Max X + t"
proof -
  note f = axis_facts [OF assms(1-3)]
  have b: "0 \<le> Min X + t" "Max X + t \<le> n - 1"
    unfolding t_def using round_half_bounds [OF f(3-5)] by simp_all
  show r: "0 \<le> x + t \<and> x + t < n" if "x \<in> X" for x
  proof -
    have "Min X \<le> x" "x \<le> Max X" using that assms(1) by simp_all
    then show ?thesis using b by linarith
  qed
  have fin: "finite ((\<lambda>x. x + t) ` X)" and ne: "(\<lambda>x. x + t) ` X \<noteq> {}"
    using assms(1,2) by simp_all
  have rng: "0 \<le> x' \<and> x' < n" if "x' \<in> (\<lambda>x. x + t) ` X" for x'
    using that r by auto
  have "Min ((\<lambda>x. x + t) ` X) = Min X + t" "Max ((\<lambda>x. x + t) ` X) = Max X + t"
    using Min_add_commute [OF assms(1,2), of "\<lambda>x. x" t]
      Max_add_commute [OF assms(1,2), of "\<lambda>x. x" t] by simp_all
  then show "Min (insert n ((\<lambda>x. x + t) ` X)) = Min X + t"
    and "Max (insert (- 1) ((\<lambda>x. x + t) ` X)) = Max X + t"
    using axis_facts(1,2) [OF fin ne rng] by simp_all
qed

subsection \<open>The visible pixels after centering\<close>

lemma visible_paste_image:
  assumes "\<And>p. visible background_key img p \<Longrightarrow>
      0 \<le> int (fst p) + dx \<and> int (fst p) + dx < int (width img) \<and>
      0 \<le> int (snd p) + dy \<and> int (snd p) + dy < int (height img)"
  shows "{p. visible background_key
           (paste (new_image (width img) (height img) background_key) img (dx, dy)) p} =
         (\<lambda>p. (nat (int (fst p) + dx), nat (int (snd p) + dy))) ` {p. visible background_key img p}"
    (is "?L = ?f ` ?V")
proof (intro set_eqI iffI)
  fix q
  assume "q \<in> ?L"
  obtain x y where q: "q = (x, y)" by (cases q)
  from \<open>q \<in> ?L\<close> have v: "x < width img" "y < height img" "0 \<le> int x - dx" "0 \<le> int y - dy"
    "visible background_key img (nat (int x - dx), nat (int y - dy))"
    unfolding q by (simp_all add: visible_paste_new)
  have "?f (nat (int x - dx), nat (int y - dy)) = q"
    using v(3,4) by (simp add: q)
  then show "q \<in> ?f ` ?V" using v(5) by (intro image_eqI [where x = "(nat (int x - dx), nat (int y - dy))"]) simp_all
next
  fix q
  assume "q \<in> ?f ` ?V"
  then obtain p where p: "visible background_key img p" and q: "q = ?f p" by auto
  note r = assms [OF p]
  have "nat (int (fst p) + dx) < width img" "nat (int (snd p) + dy) < height img"
    using r by linarith+
  moreover have "(nat (int (nat (int (fst p) + dx)) - dx), nat (int (nat (int (snd p) + dy)) - dy)) = p"
    using r by simp
  ultimately show "q \<in> ?L"
    using p r unfolding q by (simp add: visible_paste_new)
qed

lemma visible_cols_paste:
  assumes "\<And>p. visible background_key img p \<Longrightarrow>
      0 \<le> int (fst p) + dx \<and> int (fst p) + dx < int (width img) \<and>
      0 \<le> int (snd p) + dy \<and> int (snd p) + dy < int (height img)"
  shows "visible_cols background_key
           (paste (new_image (width img) (height img) background_key) img (dx, dy)) =
         (\<lambda>x. x + dx) ` visible_cols background_key img"
    and "visible_rows background_key
           (paste (new_image (width img) (height img) background_key) img (dx, dy)) =
         (\<lambda>y. y + dy) ` visible_rows background_key img"
proof -
  let ?img' = "paste (new_image (width img) (height img) background_key) img (dx, dy)"
  let ?V = "{p. visible background_key img p}"
  let ?f = "\<lambda>p. (nat (int (fst p) + dx), nat (int (snd p) + dy))"
  have V': "{p. visible background_key ?img' p} = ?f ` ?V"
    using assms by (rule visible_paste_image)
  have "visible_cols background_key ?img' = (\<lambda>p. int (fst p)) ` (?f ` ?V)"
    by (simp only: visible_cols_def V')
  also have "\<dots> = (\<lambda>p. int (fst p) + dx) ` ?V"
    unfolding image_image by (intro image_cong refl) (simp add: assms)
  also have "\<dots> = (\<lambda>x. x + dx) ` visible_cols background_key img"
    by (simp add: visible_cols_def image_image)
  finally show "visible_cols background_key ?img' =
      (\<lambda>x. x + dx) ` visible_cols background_key img" .
  have "visible_rows background_key ?img' = (\<lambda>p. int (snd p)) ` (?f ` ?V)"
    by (simp only: visible_rows_def V')
  also have "\<dots> = (\<lambda>p. int (snd p) + dy) ` ?V"
    unfolding image_image by (intro image_cong refl) (simp add: assms)
  also have "\<dots> = (\<lambda>y. y + dy) ` visible_rows background_key img"
    by (simp add: visible_rows_def image_image)
  finally show "visible_rows background_key ?img' =
      (\<lambda>y. y + dy) ` visible_rows background_key img" .
qed

lemma py_round_offset:
  "py_round (of_int (int w - 1) / 2 - of_int (a + c) / 2) = round_half (int w - 1 - (a + c))"
proof -
  have "(of_int (int w - 1) :: rat) / 2 - of_int (a + c) / 2 = of_int (int w - 1 - (a + c)) / 2"
    by (simp add: diff_divide_distrib)
  then show ?thesis by (simp only: py_round_half)
qed

lemma center_unfold:
  assumes "scan_bbox background_key img = (a, b, c, d)"
  shows "center_by_visible_pixels img =
     (if c < a \<or> d < b then img
      else paste (new_image (width img) (height img) background_key) img
             (round_half (int (width img) - 1 - (a + c)), round_half (int (height img) - 1 - (b + d))))"
  unfolding center_by_visible_pixels_def center_by_visible_pixels_with_def convert_RGB_def
    Let_def assms prod.case py_round_offset ..

lemma center_blank:
  assumes "{p. visible background_key img p} = {}"
  shows "center_by_visible_pixels img = img"
proof -
  have "scan_bbox background_key img = (int (width img), int (height img), - 1, - 1)"
    unfolding scan_bbox_eq visible_cols_def visible_rows_def assms by simp
  then show ?thesis by (simp add: center_unfold)
qed

subsection \<open>Idempotence\<close>

lemma center_shift:
  assumes ne: "{p. visible background_key img p} \<noteq> {}"
  defines "X \<equiv> visible_cols background_key img" and "Y \<equiv> visible_rows background_key img"
  defines "dx \<equiv> round_half (int (width img) - 1 - (Min X + Max X))"
    and "dy \<equiv> round_half (int (height img) - 1 - (Min Y + Max Y))"
  defines "img' \<equiv> paste (new_image (width img) (height img) background_key) img (dx, dy)"
  shows "center_by_visible_pixels img = img'"
    and "scan_bbox background_key img' = (Min X + dx, Min Y + dy, Max X + dx, Max Y + dy)"
    and "Min X \<le> Max X" "Min Y \<le> Max Y"
    and "scan_bbox background_key img = (Min X, Min Y, Max X, Max Y)"
proof -
  have fX: "finite X" and fY: "finite Y"
    by (simp_all add: X_def Y_def finite_visible_cols finite_visible_rows)
  have nX: "X \<noteq> {}" and nY: "Y \<noteq> {}"
    using ne by (simp_all add: X_def Y_def visible_cols_def visible_rows_def)
  have rX: "0 \<le> x \<and> x < int (width img)" if "x \<in> X" for x
    using that unfolding X_def by (rule visible_cols_range)
  have rY: "0 \<le> y \<and> y < int (height img)" if "y \<in> Y" for y
    using that unfolding Y_def by (rule visible_rows_range)
  note aX = axis_facts [OF fX nX rX] and aY = axis_facts [OF fY nY rY]
  note sX = axis_shift [OF fX nX rX, folded dx_def] and sY = axis_shift [OF fY nY rY, folded dy_def]
  show le: "Min X \<le> Max X" "Min Y \<le> Max Y" by (simp_all add: aX(4) aY(4))
  show scan: "scan_bbox background_key img = (Min X, Min Y, Max X, Max Y)"
    by (simp add: scan_bbox_eq X_def [symmetric] Y_def [symmetric] aX(1,2) aY(1,2))
  show "center_by_visible_pixels img = img'"
    using le by (simp add: center_unfold [OF scan] img'_def dx_def dy_def)
  have inside: "0 \<le> int (fst p) + dx \<and> int (fst p) + dx < int (width img) \<and>
      0 \<le> int (snd p) + dy \<and> int (snd p) + dy < int (height img)"
    if "visible background_key img p" for p
  proof -
    have "int (fst p) \<in> X" "int (snd p) \<in> Y"
      using that by (auto simp add: X_def Y_def visible_cols_def visible_rows_def)
    then show ?thesis using sX(1) sY(1) by blast
  qed
  have "visible_cols background_key img' = (\<lambda>x. x + dx) ` X"
    and "visible_rows background_key img' = (\<lambda>y. y + dy) ` Y"
    unfolding img'_def X_def Y_def
    using visible_cols_paste [of img dx dy, OF inside] by simp_all
  then show "scan_bbox background_key img' = (Min X + dx, Min Y + dy, Max X + dx, Max Y + dy)"
    by (simp add: scan_bbox_eq img'_def paste_size new_image_size sX(2,3) sY(2,3))
qed


subsection \<open>Idempotence\<close>

lemma centering_offset_unfold:
  assumes "scan_bbox background_key img = (a, b, c, d)"
  shows "centering_offset img =
     (if c < a \<or> d < b then None
      else Some (round_half (int (width img) - 1 - (a + c)),
                 round_half (int (height img) - 1 - (b + d))))"
  unfolding centering_offset_def assms prod.case py_round_offset ..

lemma center_by_offset:
  "center_by_visible_pixels img =
     (case centering_offset img of
        None \<Rightarrow> img
      | Some off \<Rightarrow> paste (new_image (width img) (height img) background_key) img off)"
proof -
  obtain a b c d where scan: "scan_bbox background_key img = (a, b, c, d)"
    by (cases "scan_bbox background_key img") auto
  show ?thesis
    by (simp add: center_unfold [OF scan] centering_offset_unfold [OF scan])
qed

lemma center_size:
  "width (center_by_visible_pixels img) = width img"
  "height (center_by_visible_pixels img) = height img"
  by (simp_all add: center_by_offset paste_size new_image_size split: option.splits)

lemma round_half_tolerance: "\<bar>k - 2 * round_half k\<bar> \<le> 1"
  using round_half_lower [of k] round_half_upper [of k] by linarith

lemma centered_box:
  assumes ne: "{p. visible background_key img p} \<noteq> {}"
    and scan: "scan_bbox background_key img = (a, b, c, d)"
    and scan': "scan_bbox background_key (center_by_visible_pixels img) = (a', b', c', d')"
  shows "\<not> (c < a \<or> d < b)"
    and "a' \<le> c' \<and> b' \<le> d' \<and> c' - a' = c - a \<and> d' - b' = d - b"
    and "\<bar>int (width img) - 1 - (a' + c')\<bar> \<le> 1 \<and> \<bar>int (height img) - 1 - (b' + d')\<bar> \<le> 1"
    and "centering_offset (center_by_visible_pixels img) = Some (0, 0)"
proof -
  define X where "X = visible_cols background_key img"
  define Y where "Y = visible_rows background_key img"
  define dx where "dx = round_half (int (width img) - 1 - (Min X + Max X))"
  define dy where "dy = round_half (int (height img) - 1 - (Min Y + Max Y))"
  define img' where "img' = paste (new_image (width img) (height img) background_key) img (dx, dy)"
  note s = center_shift [OF ne, folded X_def Y_def, folded dx_def dy_def, folded img'_def]
  have box: "a = Min X" "b = Min Y" "c = Max X" "d = Max Y"
    using scan s(5) by simp_all
  have box': "a' = Min X + dx" "b' = Min Y + dy" "c' = Max X + dx" "d' = Max Y + dy"
    using scan' s(1,2) by simp_all
  show "\<not> (c < a \<or> d < b)" using s(3,4) by (simp add: box)
  show "a' \<le> c' \<and> b' \<le> d' \<and> c' - a' = c - a \<and> d' - b' = d - b"
    using s(3,4) by (simp add: box box')
  have tx: "\<bar>int (width img) - 1 - (a' + c')\<bar> \<le> 1"
    using round_half_tolerance [of "int (width img) - 1 - (Min X + Max X)"]
    by (simp add: box' dx_def algebra_simps)
  have ty: "\<bar>int (height img) - 1 - (b' + d')\<bar> \<le> 1"
    using round_half_tolerance [of "int (height img) - 1 - (Min Y + Max Y)"]
    by (simp add: box' dy_def algebra_simps)
  show "\<bar>int (width img) - 1 - (a' + c')\<bar> \<le> 1 \<and> \<bar>int (height img) - 1 - (b' + d')\<bar> \<le> 1"
    using tx ty by simp
  have zx: "round_half (int (width img) - 1 - (a' + c')) = 0"
    using tx by (intro round_half_small) linarith+
  have zy: "round_half (int (height img) - 1 - (b' + d')) = 0"
    using ty by (intro round_half_small) linarith+
  show "centering_offset (center_by_visible_pixels img) = Some (0, 0)"
    using s(3,4) by (simp add: centering_offset_unfold [OF scan'] center_size zx zy) (simp add: box')
qed

lemma center_of_centered:
  assumes "wf_image img"
  shows "center_by_visible_pixels (center_by_visible_pixels img) = center_by_visible_pixels img"
proof (cases "{p. visible background_key img p} = {}")
  case True
  then show ?thesis by (simp add: center_blank)
next
  case False
  let ?img' = "center_by_visible_pixels img"
  obtain a b c d where scan: "scan_bbox background_key img = (a, b, c, d)"
    by (cases "scan_bbox background_key img") auto
  obtain a' b' c' d' where scan': "scan_bbox background_key ?img' = (a', b', c', d')"
    by (cases "scan_bbox background_key ?img'") auto
  have off: "centering_offset ?img' = Some (0, 0)"
    using False scan scan' by (rule centered_box(4))
  have "wf_image ?img'"
    using assms by (simp add: center_by_offset wf_paste split: option.splits)
  then have "paste (new_image (width ?img') (height ?img') background_key) ?img' (0, 0) = ?img'"
    by (rule paste_origin)
  then show ?thesis
    by (simp add: center_by_offset [of ?img'] off)
qed

lemma blank_scan:
  assumes "{p. visible background_key img p} = {}"
  shows "scan_bbox background_key img = (int (width img), int (height img), - 1, - 1)"
  unfolding scan_bbox_eq visible_cols_def visible_rows_def assms by simp

text \<open>
  Claim C4. On every well-formed RGB image centering is idempotent, and for the reason
  the claim gives. The canvas keeps its size. When the image has a visible pixel, one
  application moves the bounding box of the visible pixels without changing its extent,
  so that it is centered within the rounding tolerance: the sum of its two bounds
  differs from \<open>w - 1\<close> (and from \<open>h - 1\<close>) by at most 1, which is half a pixel between
  the two centers. The offset that the second application computes is then (0, 0), and
  the image stays as it is. When nothing is visible, the first application returns the
  image itself and the second computes no offset.
\<close>

theorem centering_idempotent:
  assumes "wf_image img"
  shows "center_by_visible_pixels (center_by_visible_pixels img) = center_by_visible_pixels img \<and>
    width (center_by_visible_pixels img) = width img \<and>
    height (center_by_visible_pixels img) = height img \<and>
    (case scan_bbox background_key img of (a, b, c, d) \<Rightarrow>
     case scan_bbox background_key (center_by_visible_pixels img) of (a', b', c', d') \<Rightarrow>
       if c < a \<or> d < b
       then center_by_visible_pixels img = img \<and>
            centering_offset (center_by_visible_pixels img) = None
       else a' \<le> c' \<and> b' \<le> d' \<and> c' - a' = c - a \<and> d' - b' = d - b \<and>
            \<bar>int (width img) - 1 - (a' + c')\<bar> \<le> 1 \<and>
            \<bar>int (height img) - 1 - (b' + d')\<bar> \<le> 1 \<and>
            centering_offset (center_by_visible_pixels img) = Some (0, 0))"
proof -
  let ?img' = "center_by_visible_pixels img"
  obtain a b c d where scan: "scan_bbox background_key img = (a, b, c, d)"
    by (cases "scan_bbox background_key img") auto
  obtain a' b' c' d' where scan': "scan_bbox background_key ?img' = (a', b', c', d')"
    by (cases "scan_bbox background_key ?img'") auto
  have box: "if c < a \<or> d < b
       then ?img' = img \<and> centering_offset ?img' = None
       else a' \<le> c' \<and> b' \<le> d' \<and> c' - a' = c - a \<and> d' - b' = d - b \<and>
            \<bar>int (width img) - 1 - (a' + c')\<bar> \<le> 1 \<and>
            \<bar>int (height img) - 1 - (b' + d')\<bar> \<le> 1 \<and>
            centering_offset ?img' = Some (0, 0)"
  proof (cases "{p. visible background_key img p} = {}")
    case True
    have same: "?img' = img" using True by (rule center_blank)
    have early: "c < a \<or> d < b"
      using scan blank_scan [OF True] by auto
    have "centering_offset img = None"
      using early by (simp add: centering_offset_unfold [OF scan])
    then show ?thesis using same early by simp
  next
    case False
    note cb = centered_box [OF False scan scan']
    show ?thesis using cb by simp
  qed
  show ?thesis
    using center_of_centered [OF assms] box
    by (simp add: center_size scan scan')
qed

theorem centering_idempotent_witness:
  "wf_image tie_canvas \<and>
   scan_bbox background_key tie_canvas = (0, 0, 0, 0) \<and>
   centering_offset tie_canvas = Some (2, 0) \<and>
   scan_bbox background_key (center_by_visible_pixels tie_canvas) = (2, 0, 2, 0) \<and>
   centering_offset (center_by_visible_pixels tie_canvas) = Some (0, 0) \<and>
   center_by_visible_pixels (center_by_visible_pixels tie_canvas) =
     center_by_visible_pixels tie_canvas"
proof -
  have wf: "wf_image tie_canvas"
    by (simp add: wf_image_def tie_canvas_def)
  have before: "scan_bbox background_key tie_canvas = (0, 0, 0, 0)"
    by code_simp
  have first: "centering_offset tie_canvas = Some (2, 0)"
    by code_simp
  have after: "scan_bbox background_key (center_by_visible_pixels tie_canvas) = (2, 0, 2, 0)"
    by code_simp
  show ?thesis
    using centering_idempotent [OF wf] wf before first after by simp
qed

text \<open>On the canvas with two visible pixels the first application moves them by (1, 1).\<close>

lemma center_offcenter_canvas:
  "centering_offset offcenter_canvas = Some (1, 1) \<and>
   center_by_visible_pixels offcenter_canvas \<noteq> offcenter_canvas"
  by code_simp

text \<open>
  Claim C9. An image whose pixels all equal the sentinel background colour has no
  visible pixel, and centering returns it with every pixel unchanged.
\<close>

theorem background_only_unchanged:
  assumes "wf_image img"
    and "\<forall>x < width img. \<forall>y < height img. getpixel img (x, y) = background_key"
  shows "center_by_visible_pixels img = img"
proof -
  have "{p. visible background_key img p} = {}"
    using assms(2) by (auto simp add: visible_def)
  then show ?thesis by (rule center_blank)
qed

theorem background_only_unchanged_witness:
  "wf_image blank_canvas \<and>
   list_all (\<lambda>p. rgb_of p = background_key) (pixels blank_canvas) \<and>
   center_by_visible_pixels blank_canvas = blank_canvas"
proof -
  have wf: "wf_image blank_canvas"
    by (simp add: wf_image_def blank_canvas_def)
  have px: "getpixel blank_canvas (x, y) = background_key" if "x < 2" "y < 2" for x y
  proof -
    from that have "x = 0 \<or> x = 1" "y = 0 \<or> y = 1" by auto
    then show ?thesis
      by (auto simp add: blank_canvas_def getpixel_def rgb_of_def background_key_def)
  qed
  have bg: "\<forall>x < width blank_canvas. \<forall>y < height blank_canvas.
      getpixel blank_canvas (x, y) = background_key"
    using px by (simp add: blank_canvas_def)
  have "list_all (\<lambda>p. rgb_of p = background_key) (pixels blank_canvas)"
    by (simp add: blank_canvas_def rgb_of_def background_key_def)
  then show ?thesis using wf background_only_unchanged [OF wf bg] by blast
qed

section \<open>Properties of the selection\<close>

lemma add_inv: "sel_inv A cap st \<Longrightarrow> sel_inv A cap (add A cap code st)"
  by (auto simp add: sel_inv_def add_def Let_def)

lemma add_mono:
  "seen_codes st \<subseteq> seen_codes (add A cap code st)"
  "face_count st \<le> face_count (add A cap code st)"
  by (auto simp add: add_def Let_def)

lemma tried_add: "tried cap st c \<Longrightarrow> tried cap (add A cap code st) c"
  using add_mono [of st A cap code] by (auto simp add: tried_def)

lemma add_tries:
  "c \<in> A \<Longrightarrow> c \<noteq> [] \<Longrightarrow> strip (upper c) = c \<Longrightarrow> tried cap (add A cap c st) c"
  by (auto simp add: tried_def add_def Let_def)

lemma add_seeds_inv: "sel_inv A cap st \<Longrightarrow> sel_inv A cap (add_seeds A cap t cs st)"
  by (induction cs arbitrary: st) (simp_all add: Let_def add_inv)

lemma tried_add_seeds: "tried cap st c \<Longrightarrow> tried cap (add_seeds A cap t cs st) c"
  by (induction cs arbitrary: st) (simp_all add: Let_def tried_add)

lemma auto_fill_inv: "sel_inv A cap st \<Longrightarrow> sel_inv A cap (auto_fill A cap t cs st)"
  by (induction cs arbitrary: st) (simp_all add: add_inv)

lemma tried_auto_fill: "tried cap st c \<Longrightarrow> tried cap (auto_fill A cap t cs st) c"
  by (induction cs arbitrary: st) (simp_all add: tried_add)

lemma auto_fill_length_mono:
  "length (selected st) \<le> length (selected (auto_fill A cap t cs st))"
proof (induction cs arbitrary: st)
  case Nil
  then show ?case by simp
next
  case (Cons c cs)
  have "length (selected st) \<le> length (selected (add A cap c st))"
    by (simp add: add_def Let_def)
  then show ?case
    using Cons [of st] Cons [of "add A cap c st"] by (auto intro: order_trans)
qed

lemma auto_fill_tries:
  assumes "int (length (selected (auto_fill A cap t cs st))) < t"
    and "c \<in> set cs" "c \<in> A" "valid_code c"
  shows "tried cap (auto_fill A cap t cs st) c"
  using assms
proof (induction cs arbitrary: st)
  case Nil
  then show ?case by simp
next
  case (Cons d cs)
  have small: "\<not> int (length (selected st)) \<ge> t"
    using Cons.prems(1) auto_fill_length_mono [of st A cap t "d # cs"] by linarith
  show ?case
  proof (cases "c = d")
    case True
    have "tried cap (add A cap c st) c"
      using Cons.prems(3,4) by (intro add_tries) (simp_all add: valid_code_def)
    then show ?thesis
      using small Cons.prems(4) True by (simp add: valid_code_def tried_auto_fill)
  next
    case False
    then have "c \<in> set cs" using Cons.prems(2) by simp
    then show ?thesis
      using small Cons.prems Cons.IH [of st] Cons.IH [of "add A cap d st"]
      by (simp split: if_splits)
  qed
qed

lemma filter_take_length: "length (filter P (take n xs)) \<le> length (filter P xs)"
proof -
  have "length (filter P xs) = length (filter P (take n xs)) + length (filter P (drop n xs))"
    by (metis append_take_drop_id filter_append length_append)
  then show ?thesis by simp
qed

lemma selected_count:
  assumes inv: "sel_inv A cap st" and fin: "finite A"
    and all: "\<And>c. c \<in> A \<Longrightarrow> valid_code c \<Longrightarrow> tried cap st c"
  shows "int (card {c \<in> A. valid_code c \<and> \<not> is_face_like c})
           + min cap (int (card {c \<in> A. valid_code c \<and> is_face_like c}))
         \<le> int (length (selected st))"
proof -
  let ?S = "selected st"
  let ?NF = "{c \<in> A. valid_code c \<and> \<not> is_face_like c}"
  let ?F = "{c \<in> A. valid_code c \<and> is_face_like c}"
  have d: "distinct ?S" and s: "set ?S = seen_codes st"
    and fc: "face_count st = int (length (filter is_face_like ?S))" and le: "face_count st \<le> cap"
    using inv by (simp_all add: sel_inv_def)
  have split: "length ?S = length (filter is_face_like ?S) + length (filter (\<lambda>c. \<not> is_face_like c) ?S)"
    by (rule sum_length_filter_compl [symmetric])
  have "?NF \<subseteq> set (filter (\<lambda>c. \<not> is_face_like c) ?S)"
    using all s by (auto simp add: tried_def)
  then have "card ?NF \<le> card (set (filter (\<lambda>c. \<not> is_face_like c) ?S))"
    by (intro card_mono) simp_all
  also have "\<dots> = length (filter (\<lambda>c. \<not> is_face_like c) ?S)"
    using d by (intro distinct_card distinct_filter)
  finally have nf: "card ?NF \<le> length (filter (\<lambda>c. \<not> is_face_like c) ?S)" .
  have f: "min cap (int (card ?F)) \<le> int (length (filter is_face_like ?S))"
  proof (cases "face_count st \<ge> cap")
    case True
    then show ?thesis using fc le by simp
  next
    case False
    then have "?F \<subseteq> set (filter is_face_like ?S)"
      using all s by (auto simp add: tried_def)
    then have "card ?F \<le> card (set (filter is_face_like ?S))"
      by (intro card_mono) simp_all
    also have "\<dots> = length (filter is_face_like ?S)"
      using d by (intro distinct_card distinct_filter)
    finally show ?thesis by simp
  qed
  show ?thesis using split nf f by linarith
qed

lemma set_sort_key_codes: "set (sort_key f xs) = set xs"
  by simp

lemma selection_result_sets:
  fixes stems :: "string list" and count max_faces_arg :: int
  defines "A \<equiv> set (list_available_emoji_codes stems)"
    and "target \<equiv> max 1 count" and "cap \<equiv> max 0 max_faces_arg"
    and "res \<equiv> select_emoji_codes_main stems count max_faces_arg"
  shows "length res \<le> nat target \<and> distinct res \<and> set res \<subseteq> A \<and>
         int (length (filter is_face_like res)) \<le> cap \<and>
         (target \<le> int (card {c \<in> A. valid_code c \<and> \<not> is_face_like c})
              + min cap (int (card {c \<in> A. valid_code c \<and> is_face_like c}))
            \<longrightarrow> length res = nat target)"
proof -
  define codes where "codes = list_available_emoji_codes stems"
  define st0 where "st0 = \<lparr>selected = [], seen_codes = {}, face_count = 0\<rparr>"
  define st1 where "st1 = add_seeds A cap target FACE_SEED st0"
  define st2 where "st2 = (if int (length (selected st1)) < target
      then add_seeds A cap target FUN_SEED st1 else st1)"
  define st3 where "st3 = (if int (length (selected st2)) < target
      then auto_fill A cap target (sort_key sort_key_fn codes) st2 else st2)"
  have res: "res = take (nat target) (selected st3)"
    unfolding res_def select_emoji_codes_main_def Let_def st3_def st2_def st1_def st0_def
      codes_def A_def target_def cap_def ..
  have "sel_inv A cap st0" by (simp add: sel_inv_def st0_def cap_def)
  then have "sel_inv A cap st1" unfolding st1_def by (rule add_seeds_inv)
  then have "sel_inv A cap st2" unfolding st2_def by (simp add: add_seeds_inv)
  then have inv: "sel_inv A cap st3" unfolding st3_def by (simp add: auto_fill_inv)
  then have d: "distinct (selected st3)" and s: "set (selected st3) \<subseteq> A"
    and fc: "int (length (filter is_face_like (selected st3))) \<le> cap"
    by (auto simp add: sel_inv_def)
  have 1: "length res \<le> nat target" by (simp add: res)
  have 2: "distinct res" using d by (simp add: res)
  have 3: "set res \<subseteq> A" using s set_take_subset [of "nat target" "selected st3"] by (auto simp add: res)
  have 4: "int (length (filter is_face_like res)) \<le> cap"
    using fc filter_take_length [of is_face_like "nat target" "selected st3"] by (simp add: res)
  have 5: "length res = nat target"
    if enough: "target \<le> int (card {c \<in> A. valid_code c \<and> \<not> is_face_like c})
              + min cap (int (card {c \<in> A. valid_code c \<and> is_face_like c}))"
  proof -
    have "target \<le> int (length (selected st3))"
    proof (rule ccontr)
      assume "\<not> target \<le> int (length (selected st3))"
      then have short: "int (length (selected st3)) < target" by simp
      have fill: "st3 = auto_fill A cap target (sort_key sort_key_fn codes) st2"
        using short unfolding st3_def by (auto split: if_splits)
      have "tried cap st3 c" if "c \<in> A" "valid_code c" for c
        unfolding fill
      proof (rule auto_fill_tries)
        show "int (length (selected (auto_fill A cap target (sort_key sort_key_fn codes) st2))) < target"
          using short fill by simp
        show "c \<in> set (sort_key sort_key_fn codes)" using that(1) by (simp add: A_def codes_def)
      qed (use that in simp_all)
      then have "int (card {c \<in> A. valid_code c \<and> \<not> is_face_like c})
           + min cap (int (card {c \<in> A. valid_code c \<and> is_face_like c}))
         \<le> int (length (selected st3))"
        by (intro selected_count [OF inv]) (simp_all add: A_def)
      then show False using enough short by linarith
    qed
    then show ?thesis by (simp add: res)
  qed
  show ?thesis using 1 2 3 4 5 by blast
qed


lemma distinct_available: "distinct (list_available_emoji_codes stems)"
  by (simp add: list_available_emoji_codes_def)

lemma card_filter_distinct:
  "distinct xs \<Longrightarrow> card {c \<in> set xs. P c} = length (filter P xs)"
proof -
  assume "distinct xs"
  then have "card (set (filter P xs)) = length (filter P xs)"
    by (intro distinct_card distinct_filter)
  then show ?thesis by simp
qed

text \<open>
  Claim C7, amended. Let the target be \<open>max 1 count\<close> and the cap \<open>max 0 max_faces\<close>.
  The selection returns at most target identifiers, all distinct and all taken from the
  pool, of which at most cap are face-like. It returns exactly target identifiers when
  the pool can supply them under the cap: when the number of selectable identifiers
  that are not face-like, plus the smaller of the cap and the number of selectable
  face-like identifiers, reaches the target.
\<close>

theorem selection_result:
  fixes stems :: "string list" and count max_faces_arg :: int
  defines "codes \<equiv> list_available_emoji_codes stems"
    and "target \<equiv> max 1 count" and "cap \<equiv> max 0 max_faces_arg"
    and "res \<equiv> select_emoji_codes_main stems count max_faces_arg"
  shows "length res \<le> nat target \<and> distinct res \<and> set res \<subseteq> set codes \<and>
         int (length (filter is_face_like res)) \<le> cap \<and>
         (target \<le> int (length (filter (\<lambda>c. valid_code c \<and> \<not> is_face_like c) codes))
              + min cap (int (length (filter (\<lambda>c. valid_code c \<and> is_face_like c) codes)))
            \<longrightarrow> length res = nat target)"
  unfolding codes_def target_def cap_def res_def
  using selection_result_sets [of stems count max_faces_arg]
  by (simp add: card_filter_distinct [OF distinct_available])

theorem selection_result_witness:
  "(4::int) \<le> int (length (filter (\<lambda>c. valid_code c \<and> \<not> is_face_like c)
                      (list_available_emoji_codes mixed_pool)))
      + min 1 (int (length (filter (\<lambda>c. valid_code c \<and> is_face_like c)
                      (list_available_emoji_codes mixed_pool))))
   \<and> length (select_emoji_codes_main mixed_pool 4 1) = 4
   \<and> distinct (select_emoji_codes_main mixed_pool 4 1)
   \<and> int (length (filter is_face_like (select_emoji_codes_main mixed_pool 4 1))) \<le> 1"
proof -
  have enough: "(4::int) \<le> int (length (filter (\<lambda>c. valid_code c \<and> \<not> is_face_like c)
                      (list_available_emoji_codes mixed_pool)))
      + min 1 (int (length (filter (\<lambda>c. valid_code c \<and> is_face_like c)
                      (list_available_emoji_codes mixed_pool))))"
    by code_simp
  show ?thesis
    using selection_result [of mixed_pool 4 1] enough by simp
qed

text \<open>
  The claim as stated fails: a pool of eleven selectable identifiers that are all
  face-like, a target of eleven and the default cap of ten give ten identifiers.
\<close>

theorem selection_exact_counterexample:
  "length (filter valid_code (list_available_emoji_codes face_pool)) = 11 \<and>
   length (select_emoji_codes_main face_pool 11 10) = 10"
  by code_simp

section \<open>Properties of the array emitter\<close>

declare str_nat.simps [simp del] hex_upper.simps [simp del]

lemma digit_char_0: "digit_char 0 = CHR ''0''"
  by (simp add: digit_char_def)

lemma hex_upper_1: "n < 16 \<Longrightarrow> hex_upper n = [digit_char n]"
  by (simp add: hex_upper.simps [of n])

lemma hex_upper_2:
  "16 \<le> n \<Longrightarrow> n < 256 \<Longrightarrow> hex_upper n = [digit_char (n div 16), digit_char (n mod 16)]"
  by (simp add: hex_upper.simps [of n] hex_upper_1 less_mult_imp_div_less)

lemma hex_upper_3:
  "256 \<le> n \<Longrightarrow> n < 4096 \<Longrightarrow>
   hex_upper n = [digit_char (n div 256), digit_char (n div 16 mod 16), digit_char (n mod 16)]"
  by (simp add: hex_upper.simps [of n] hex_upper_2 less_mult_imp_div_less div_mult2_eq [symmetric])

lemma hex_upper_4:
  "4096 \<le> n \<Longrightarrow> n < 65536 \<Longrightarrow>
   hex_upper n = [digit_char (n div 4096), digit_char (n div 256 mod 16),
                  digit_char (n div 16 mod 16), digit_char (n mod 16)]"
  by (simp add: hex_upper.simps [of n] hex_upper_3 less_mult_imp_div_less div_mult2_eq [symmetric])

lemma replicate_small:
  "replicate 3 c = [c, c, c]" "replicate 2 c = [c, c]"
  by (simp_all add: numeral_3_eq_3 numeral_2_eq_2)

lemma literal_16bit:
  assumes "0 \<le> v" "v < 65536"
  shows "''0x'' @ format_04X v = spec_literal v"
proof -
  define n where "n = nat v"
  have n: "n < 65536" using assms by (simp add: n_def)
  consider "n < 16" | "16 \<le> n" "n < 256" | "256 \<le> n" "n < 4096" | "4096 \<le> n"
    by linarith
  then have "zero_pad 4 (hex_upper n) =
      [digit_char (n div 4096 mod 16), digit_char (n div 256 mod 16),
       digit_char (n div 16 mod 16), digit_char (n mod 16)]"
  proof cases
    case 1
    then show ?thesis by (simp add: hex_upper_1 zero_pad_def digit_char_0 replicate_small)
  next
    case 2
    then show ?thesis
      by (simp add: hex_upper_2 zero_pad_def digit_char_0 replicate_small less_mult_imp_div_less)
  next
    case 3
    then show ?thesis
      by (simp add: hex_upper_3 zero_pad_def digit_char_0 replicate_small less_mult_imp_div_less)
  next
    case 4
    then show ?thesis
      using n by (simp add: hex_upper_4 zero_pad_def less_mult_imp_div_less)
  qed
  then show ?thesis
    using assms by (simp add: format_04X_def spec_literal_def n_def Let_def)
qed

lemma fold_append_lines: "fold (\<lambda>i lines. lines @ [g i]) is acc = acc @ map g is"
  by (induction "is" arbitrary: acc) simp_all

lemma join_snoc: "join sep (xs @ [b]) = concat (map (\<lambda>x. x @ sep) xs) @ b"
proof (induction xs)
  case Nil
  then show ?case by simp
next
  case (Cons x xs)
  then show ?case by (cases xs) simp_all
qed

lemma chunk_count: "0 < n \<Longrightarrow> (n + 16 - 1) div 16 = Suc ((n - 16 + 16 - 1) div 16)" for n :: nat
proof (cases "n < 16")
  case True
  assume "0 < n"
  then obtain m where m: "n = Suc m" by (cases n) simp_all
  then have "m < 16" using True by simp
  then show ?thesis using True by (simp add: m)
next
  case False
  then obtain m where "n = m + 16" by (metis add.commute le_Suc_ex not_less)
  then show ?thesis by simp
qed

lemma chunks_step:
  assumes "xs \<noteq> []"
  shows "map (\<lambda>i. take 16 (drop i xs)) (range_step (length xs) 16) =
     take 16 xs # map (\<lambda>i. take 16 (drop i (drop 16 xs))) (range_step (length (drop 16 xs)) 16)"
proof -
  have cnt: "(length xs + 16 - 1) div 16 = Suc ((length (drop 16 xs) + 16 - 1) div 16)"
    using chunk_count [of "length xs"] assms by simp
  have shift: "[0..<Suc m] = 0 # map Suc [0..<m]" for m
    by (simp add: upt_conv_Cons map_Suc_upt del: upt_Suc)
  show ?thesis
    unfolding range_step_def cnt shift
    by (simp add: comp_def add.commute)
qed

lemma chunks_rows16:
  "map (\<lambda>i. take 16 (drop i arr)) (range_step (length arr) 16) = rows16 arr"
proof (induction arr rule: rows16.induct)
  case 1
  then show ?case by (simp add: range_step_def)
next
  case (2 v vs)
  have "map (\<lambda>i. take 16 (drop i (v # vs))) (range_step (length (v # vs)) 16) =
      take 16 (v # vs) # rows16 (drop 16 (v # vs))"
    by (simp only: chunks_step [of "v # vs", OF list.distinct(2)] 2)
  then show ?case by (simp only: rows16.simps)
qed

lemma rows16_concat: "concat (rows16 arr) = arr"
proof (induction arr rule: rows16.induct)
  case 1
  then show ?case by simp
next
  case (2 v vs)
  have "concat (rows16 (v # vs)) = take 16 (v # vs) @ concat (rows16 (drop 16 (v # vs)))"
    by (simp only: rows16.simps concat.simps)
  also have "\<dots> = take 16 (v # vs) @ drop 16 (v # vs)"
    by (simp only: 2)
  also have "\<dots> = v # vs"
    by (rule append_take_drop_id)
  finally show ?case .
qed

lemma rows16_length:
  "r \<in> set (rows16 arr) \<Longrightarrow> 0 < length r \<and> length r \<le> 16"
  by (induction arr rule: rows16.induct) (auto simp del: drop_Suc_Cons)

lemma rows16_full:
  "r \<in> set (butlast (rows16 arr)) \<Longrightarrow> length r = 16"
proof (induction arr rule: rows16.induct)
  case 1
  then show ?case by simp
next
  case (2 v vs)
  show ?case
  proof (cases "rows16 (drop 16 (v # vs)) = []")
    case True
    then show ?thesis using 2 by (simp del: drop_Suc_Cons take_Suc_Cons)
  next
    case False
    then have "drop 16 (v # vs) \<noteq> []" by auto
    then have "16 \<le> length (v # vs)" by (simp del: drop_Suc_Cons) 
    then have "length (take 16 (v # vs)) = 16" by (simp del: take_Suc_Cons)
    then show ?thesis using 2 False by (auto simp del: drop_Suc_Cons take_Suc_Cons)
  qed
qed

lemma rows16_set: "r \<in> set (rows16 arr) \<Longrightarrow> set r \<subseteq> set arr"
  using rows16_concat [of arr] by (metis UN_I set_concat subsetI)

lemma generate_cpp_array_spec:
  assumes "\<forall>v \<in> set arr. 0 \<le> v \<and> v < 65536"
  shows "generate_cpp_array name arr = spec_declaration name arr"
proof -
  have lit: "map (\<lambda>val. ''0x'' @ format_04X val) row = map spec_literal row"
    if "row \<in> set (rows16 arr)" for row
    using rows16_set [OF that] assms by (intro map_cong refl literal_16bit) auto
  have "generate_cpp_array name arr =
      join newline ((''const uint16_t '' @ name @ ''['' @ str_nat (length arr) @ ''] = {'')
        # map (\<lambda>row. ''    '' @ join '', '' (map (\<lambda>val. ''0x'' @ format_04X val) row) @ '','')
            (rows16 arr) @ [''};''])"
    by (simp add: generate_cpp_array_def Let_def fold_append_lines chunks_rows16 [symmetric] comp_def)
  also have "\<dots> = spec_declaration name arr"
    using lit by (simp add: join_snoc [of _ "_ # _", simplified] spec_declaration_def cong: map_cong)
  finally show ?thesis .
qed

lemma fold_write: "fold (\<lambda>p f. f @ h p) ps acc = acc @ concat (map h ps)"
  by (induction ps arbitrary: acc) simp_all

lemma quantize_value_16bit:
  assumes "0 \<le> r" "r \<le> 255" "0 \<le> g" "g \<le> 255" "0 \<le> b" "b \<le> 255"
  shows "0 \<le> rgb888_to_rgb565 r g b \<and> rgb888_to_rgb565 r g b < 65536"
proof -
  note fr = field_bounds(1,2) [OF assms(1,2)] and fg = field_bounds(3,4) [OF assms(3,4)]
    and fb = field_bounds(1,2) [OF assms(5,6)]
  show ?thesis unfolding rgb565_arith [OF assms] using fr fg fb by linarith
qed

lemma pil_values_16bit:
  assumes "v \<in> set (pil_to_rgb565_array img)"
  shows "0 \<le> v \<and> v < 65536"
proof -
  from assms obtain x y where
    v: "v = quantize_value background_key outline_boost_threshold outline_boost_rgb (getpixel img (x, y))"
    by (auto simp add: pil_to_rgb565_array_def pil_to_rgb565_array_with_grid)
  obtain r g b where p: "getpixel img (x, y) = (r, g, b)"
    by (cases "getpixel img (x, y)") auto
  note rng = getpixel_range [OF p]
  have "0 \<le> rgb888_to_rgb565 r g b \<and> rgb888_to_rgb565 r g b < 65536"
    using rng by (intro quantize_value_16bit) simp_all
  then show ?thesis
    unfolding v p by (simp add: quantize_value_def outline_boost_rgb_def boost_encoding)
qed

text \<open>
  Claim C8. For every sequence of named pixel arrays, whose values are 16-bit, the text
  that is written is the artifact of the specification: after the fixed prelude one
  declaration for each pair in order, its values sixteen to a line (every line but the
  last of a declaration holds exactly sixteen, and the lines together hold the array)
  and each written as \<^verbatim>\<open>0x\<close> followed by four hexadecimal digits; then one aggregate
  list naming every array in the same order; then the count constant, equal to the
  number of arrays.
\<close>

theorem emitted_artifact:
  assumes "\<forall>(name, arr) \<in> set arrays. \<forall>v \<in> set arr. 0 \<le> v \<and> v < 65536"
  shows "write_header arrays = spec_artifact arrays \<and>
         (\<forall>(name, arr) \<in> set arrays.
            concat (rows16 arr) = arr \<and>
            (\<forall>r \<in> set (rows16 arr). 0 < length r \<and> length r \<le> 16) \<and>
            (\<forall>r \<in> set (butlast (rows16 arr)). length r = 16))"
proof -
  have decl: "(\<lambda>(name, arr). generate_cpp_array name arr @ newline @ newline) p =
      (\<lambda>(name, arr). spec_declaration name arr @ newline @ newline) p"
    if "p \<in> set arrays" for p
    using that assms by (cases p) (auto simp add: generate_cpp_array_spec)
  have "write_header arrays =
      file_prelude
      @ concat (map (\<lambda>(name, arr). generate_cpp_array name arr @ newline @ newline) arrays)
      @ spec_aggregate (map fst arrays) @ spec_count (length arrays)"
    unfolding write_header_def Let_def file_prelude_def spec_aggregate_def spec_count_def
      case_prod_beta append_assoc fold_write map_map comp_def length_map
    by (simp only: append_Nil append_assoc)
  also have "\<dots> = spec_artifact arrays"
    unfolding spec_artifact_def using decl by (simp cong: map_cong)
  finally have "write_header arrays = spec_artifact arrays" .
  then show ?thesis
    by (auto simp add: rows16_concat rows16_full dest: rows16_length)
qed

theorem emitted_artifact_witness:
  "list_all (\<lambda>(name, arr). list_all (\<lambda>v. 0 \<le> v \<and> v < 65536) arr) example_arrays \<and>
   write_header example_arrays = spec_artifact example_arrays"
proof -
  have in_range: "\<forall>(name, arr) \<in> set example_arrays. \<forall>v \<in> set arr. 0 \<le> v \<and> v < 65536"
    by (simp add: example_arrays_def)
  have "list_all (\<lambda>(name, arr). list_all (\<lambda>v. 0 \<le> v \<and> v < 65536) arr) example_arrays"
    by (simp add: example_arrays_def)
  then show ?thesis using emitted_artifact [OF in_range] by blast
qed

section \<open>Exit status of the conversion run\<close>

text \<open>
  The exit status depends on the directory and on the selection only: the arrays that
  the loop produces are never inspected.
\<close>

lemma exit_status:
  "fst (main env count max_faces_arg size_px) = 1 \<longleftrightarrow>
     \<not> dir_exists env \<or> select_emoji_codes_main (dir_stems env) count max_faces_arg = []"
  by (simp add: main_def Let_def)

lemma exit_status_values: "fst (main env count max_faces_arg size_px) \<in> {0, 1}"
  by (simp add: main_def Let_def)

text \<open>
  Claim C5. The claim asks for a non-zero exit status when no asset was produced. In the
  directory \<^const>\<open>lowercase_dir\<close>, with the default count 100, face cap 10 and size 64,
  one identifier is selected, its file is missing, no array is produced, the header is
  written with zero arrays, and the exit status is 0.
\<close>

theorem main_exit_zero_without_assets:
  "dir_exists lowercase_dir \<and>
   select_emoji_codes_main (dir_stems lowercase_dir) 100 10 = [''1F4A9''] \<and>
   convert_all lowercase_dir 64 [''1F4A9''] = [] \<and>
   main lowercase_dir 100 10 64 = (0, Some (write_header []))"
  by code_simp

end
